theory Spec2Isabelle
  imports Main "HOL-Library.Sublist"
begin

text \<open>
  The client core of the dubbing front end: the status poller and the submission client
  of \<open>services/api.ts\<close> and the link validation of \<open>utils/link-validation.ts\<close>,
  with the types of \<open>types/upload.ts\<close>. What the code reaches outside itself (the HTTP
  client, the observer callback, \<open>JSON.stringify\<close>, the \<open>URL\<close> constructor) is a
  parameter of the function that uses it.
\<close>

section \<open>JavaScript values\<close>

text \<open>
  A JavaScript string is a sequence of UTF-16 code units; a code unit is modelled as a
  natural number. \<open>js\<close> turns a literal of the source into such a sequence.
\<close>

type_synonym jsstring = "nat list"

definition js :: "string \<Rightarrow> jsstring" where
  "js s = map of_char s"

text \<open>
  An optional string is truthy when it is present and not the empty string. \<open>a || b\<close>
  on an optional string \<open>a\<close> is \<open>a\<close> when it is truthy and \<open>b\<close> otherwise.
\<close>

definition or_else :: "jsstring option \<Rightarrow> jsstring \<Rightarrow> jsstring" where
  "or_else v d = (case v of None \<Rightarrow> d | Some s \<Rightarrow> if s \<noteq> [] then s else d)"

section \<open>types/upload.ts\<close>

record VoiceCloneStatusResponse =
  task_id :: jsstring
  status :: jsstring
  progress :: "int option"
  result_url :: "jsstring option"
  error_message :: "jsstring option"
  estimated_completion :: "jsstring option"


section \<open>services/api.ts: the status poller\<close>

text \<open>
  What a promise is rejected with: the object built by \<open>new Error(message)\<close>, or a value
  thrown elsewhere (by the transport, by the observer) and passed on as it is. The type
  \<open>'x\<close> is the type of such thrown values.
\<close>

datatype 'x rejection = ErrorObject jsstring | Thrown 'x

datatype 'x settled = Fulfilled VoiceCloneStatusResponse | Rejected "'x rejection"

text \<open>
  The observable events of one polling session, in the order they happen. The observer is
  handed the snapshot object itself: \<open>OnUpdateCalled\<close> carries it as it was received and
  \<open>OnUpdateReturned\<close> as the observer left it.
\<close>

datatype 'x event =
    GetIssued jsstring
  | GetReturned VoiceCloneStatusResponse
  | GetFailed 'x
  | OnUpdateCalled VoiceCloneStatusResponse
  | OnUpdateReturned VoiceCloneStatusResponse
  | OnUpdateThrew 'x
  | ResolveCalled VoiceCloneStatusResponse
  | RejectCalled "'x rejection"
  | SetTimeoutCalled int

text \<open>
  The state of one session: the state of the promise returned by \<open>pollTaskStatus\<close>
  (\<open>None\<close> while pending), the events so far, the number of requests sent, the number of
  observer invocations made, the requests sent and not yet answered (by their numbers),
  and the number of timers set and not yet expired.
\<close>

record 'x session =
  promise :: "'x settled option"
  log :: "'x event list"
  requests :: nat
  updates :: nat
  in_flight :: "nat list"
  timers :: nat

definition emit :: "'x event \<Rightarrow> 'x session \<Rightarrow> 'x session" where
  "emit e st = st\<lparr>log := log st @ [e]\<rparr>"

text \<open>
  The two functions handed to the promise executor. A promise settles at the first call
  of either; later calls leave its state as it is.
\<close>

definition resolve :: "VoiceCloneStatusResponse \<Rightarrow> 'x session \<Rightarrow> 'x session" where
  "resolve v st =
     emit (ResolveCalled v)
       (st\<lparr>promise := (case promise st of None \<Rightarrow> Some (Fulfilled v) | Some p \<Rightarrow> Some p)\<rparr>)"

definition reject :: "'x rejection \<Rightarrow> 'x session \<Rightarrow> 'x session" where
  "reject r st =
     emit (RejectCalled r)
       (st\<lparr>promise := (case promise st of None \<Rightarrow> Some (Rejected r) | Some p \<Rightarrow> Some p)\<rparr>)"

text \<open>\<open>setTimeout(poll, pollInterval)\<close>: one more timer is set.\<close>

definition setTimeout_poll :: "int \<Rightarrow> 'x session \<Rightarrow> 'x session" where
  "setTimeout_poll pollInterval st =
     emit (SetTimeoutCalled pollInterval) (st\<lparr>timers := Suc (timers st)\<rparr>)"

text \<open>
  The collaborator is a parameter: \<open>api_get url k\<close> is what the \<open>k\<close>-th request of the
  session to \<open>url\<close> ends with, \<open>Inl\<close> a thrown transport error, \<open>Inr\<close> the response body.
\<close>

type_synonym 'x transport = "jsstring \<Rightarrow> nat \<Rightarrow> 'x + VoiceCloneStatusResponse"

definition status_url :: "jsstring \<Rightarrow> jsstring" where
  "status_url taskId = js ''/voice/status/'' @ taskId"

text \<open>
  \<open>getVoiceCloneStatus\<close> in its two halves. Up to its \<open>await\<close>: \<open>api.get\<close> sends the
  request, which is in flight from then on. From its \<open>await\<close> on, when the request
  numbered \<open>k\<close> is answered: the request is no longer in flight, and the function throws
  the transport's error or returns \<open>response.data\<close>.
\<close>

definition getVoiceCloneStatus_call :: "jsstring \<Rightarrow> 'x session \<Rightarrow> 'x session" where
  "getVoiceCloneStatus_call taskId st =
     emit (GetIssued (status_url taskId))
       (st\<lparr>requests := Suc (requests st), in_flight := in_flight st @ [requests st]\<rparr>)"

definition getVoiceCloneStatus_return ::
  "'x transport \<Rightarrow> jsstring \<Rightarrow> nat \<Rightarrow> 'x session \<Rightarrow>
   ('x + VoiceCloneStatusResponse) \<times> 'x session" where
  "getVoiceCloneStatus_return api_get taskId k st =
     (let st1 = st\<lparr>in_flight := removeAll k (in_flight st)\<rparr>
      in case api_get (status_url taskId) k of
           Inl e \<Rightarrow> (Inl e, emit (GetFailed e) st1)
         | Inr d \<Rightarrow> (Inr d, emit (GetReturned d) st1))"

text \<open>
  The observer is a parameter as well: \<open>onUpdate k s\<close> is what its \<open>k\<close>-th invocation
  does when handed the snapshot object \<open>s\<close>: \<open>Inl v\<close> when it throws \<open>v\<close>, and \<open>Inr s'\<close>
  when it returns, \<open>s'\<close> being the object as the observer leaves it (the fields of a
  snapshot are writable, and the code reads them after the call). Every invocation is
  taken to end, by a return or a throw, as every request is taken to end, by an answer
  or an error (the client is created with a timeout).
\<close>

type_synonym 'x observer = "nat \<Rightarrow> VoiceCloneStatusResponse \<Rightarrow> 'x + VoiceCloneStatusResponse"

definition callOnUpdate ::
  "'x observer \<Rightarrow> VoiceCloneStatusResponse \<Rightarrow> 'x session \<Rightarrow>
   ('x + VoiceCloneStatusResponse) \<times> 'x session" where
  "callOnUpdate onUpdate s st =
     (let st1 = emit (OnUpdateCalled s) (st\<lparr>updates := Suc (updates st)\<rparr>)
      in case onUpdate (updates st) s of
           Inl v \<Rightarrow> (Inl v, emit (OnUpdateThrew v) st1)
         | Inr s' \<Rightarrow> (Inr s', emit (OnUpdateReturned s') st1))"

text \<open>
  The closure \<open>poll\<close> in its two halves, split at its \<open>await\<close>. \<open>poll_start\<close> runs it up
  to there: the request is sent. \<open>poll_resume \<dots> k\<close> runs it from there on, when the
  request numbered \<open>k\<close> is answered; \<open>status\<close> is the snapshot object after the observer
  has had it. The boolean says whether the run ended in \<open>setTimeout(poll, pollInterval)\<close>.
\<close>

definition poll_start :: "jsstring \<Rightarrow> 'x session \<Rightarrow> 'x session" where
  "poll_start taskId st = getVoiceCloneStatus_call taskId st"

definition poll_resume ::
  "'x transport \<Rightarrow> 'x observer \<Rightarrow> jsstring \<Rightarrow> int \<Rightarrow> nat \<Rightarrow> 'x session \<Rightarrow>
   'x session \<times> bool" where
  "poll_resume api_get onUpdate taskId pollInterval k st =
     (case getVoiceCloneStatus_return api_get taskId k st of
        (Inl error, st1) \<Rightarrow> (reject (Thrown error) st1, False)
      | (Inr s, st1) \<Rightarrow>
          (case callOnUpdate onUpdate s st1 of
             (Inl error, st2) \<Rightarrow> (reject (Thrown error) st2, False)
           | (Inr status', st2) \<Rightarrow>
               if status status' = js ''success'' then (resolve status' st2, False)
               else if status status' = js ''failure'' then
                 (reject (ErrorObject (or_else (error_message status') (js ''Task failed''))) st2,
                  False)
               else (setTimeout_poll pollInterval st2, True)))"

text \<open>One run of \<open>poll\<close> from its call to its end: the request it sends is answered next.\<close>

definition poll ::
  "'x transport \<Rightarrow> 'x observer \<Rightarrow> jsstring \<Rightarrow> int \<Rightarrow> 'x session \<Rightarrow> 'x session \<times> bool" where
  "poll api_get onUpdate taskId pollInterval st =
     poll_resume api_get onUpdate taskId pollInterval (requests st) (poll_start taskId st)"

text \<open>A timer expires; its callback is \<open>poll\<close>.\<close>

definition timer_expires :: "'x session \<Rightarrow> 'x session" where
  "timer_expires st = st\<lparr>timers := timers st - 1\<rparr>"

text \<open>
  The session: \<open>poll\<close> runs once, and again each time the timer it set expires. A session
  that sets a timer for ever has no final state: the value is \<open>None\<close>.
\<close>

partial_function (option) poll_loop ::
  "'x transport \<Rightarrow> 'x observer \<Rightarrow> jsstring \<Rightarrow> int \<Rightarrow> 'x session \<Rightarrow> 'x session option" where
  "poll_loop api_get onUpdate taskId pollInterval st =
     (case poll api_get onUpdate taskId pollInterval st of
        (st', again) \<Rightarrow>
          if again then poll_loop api_get onUpdate taskId pollInterval (timer_expires st')
          else Some st')"

definition new_session :: "'x session" where
  "new_session = \<lparr>promise = None, log = [], requests = 0, updates = 0, in_flight = [], timers = 0\<rparr>"

text \<open>
  The parameter \<open>pollInterval: number = 2000\<close>: \<open>None\<close> is a call without the
  argument. The interval is only handed on to \<open>setTimeout\<close>; it is modelled as a
  whole number of milliseconds.
\<close>

definition interval_of :: "int option \<Rightarrow> int" where
  "interval_of pollInterval = (case pollInterval of None \<Rightarrow> 2000 | Some i \<Rightarrow> i)"

definition pollTaskStatus ::
  "'x transport \<Rightarrow> 'x observer \<Rightarrow> jsstring \<Rightarrow> int option \<Rightarrow> 'x session option" where
  "pollTaskStatus api_get onUpdate taskId pollInterval =
     poll_loop api_get onUpdate taskId (interval_of pollInterval) new_session"

text \<open>
  The same session watched for at most \<open>k\<close> runs of \<open>poll\<close>: the state reached, and
  whether \<open>poll\<close> is to run again (at the start, or because the timer of the run before
  has expired).
\<close>

primrec poll_upto ::
  "nat \<Rightarrow> 'x transport \<Rightarrow> 'x observer \<Rightarrow> jsstring \<Rightarrow> int \<Rightarrow> 'x session \<Rightarrow> 'x session \<times> bool" where
  "poll_upto 0 api_get onUpdate taskId pollInterval st = (st, True)"
| "poll_upto (Suc k) api_get onUpdate taskId pollInterval st =
     (case poll api_get onUpdate taskId pollInterval st of
        (st', again) \<Rightarrow>
          if again then poll_upto k api_get onUpdate taskId pollInterval (timer_expires st')
          else (st', False))"

definition observe ::
  "nat \<Rightarrow> 'x transport \<Rightarrow> 'x observer \<Rightarrow> jsstring \<Rightarrow> int option \<Rightarrow> 'x session \<times> bool" where
  "observe k api_get onUpdate taskId pollInterval =
     poll_upto k api_get onUpdate taskId (interval_of pollInterval) new_session"

subsection \<open>The event loop\<close>

text \<open>
  What happens to a session is decided by its environment: the answer to a request that is
  in flight arrives, or a timer that is set expires, in any order and at any time. Each
  event runs the code waiting for it to its end: the answer to request \<open>k\<close> resumes the
  run of \<open>poll\<close> that sent it, an expiring timer calls \<open>poll\<close>. An event that cannot happen
  (no such request in flight, no timer set) changes nothing. \<open>event_loop\<close> is the state
  after the call of \<open>pollTaskStatus\<close>, which runs \<open>poll\<close> up to its \<open>await\<close>, and then a
  sequence of events.
\<close>

datatype action = ResponseArrives nat | TimerExpires

definition event ::
  "'x transport \<Rightarrow> 'x observer \<Rightarrow> jsstring \<Rightarrow> int \<Rightarrow> 'x session \<Rightarrow> action \<Rightarrow> 'x session" where
  "event api_get onUpdate taskId pollInterval st a =
     (case a of
        ResponseArrives k \<Rightarrow>
          if k \<in> set (in_flight st)
          then fst (poll_resume api_get onUpdate taskId pollInterval k st)
          else st
      | TimerExpires \<Rightarrow>
          if 0 < timers st then poll_start taskId (timer_expires st) else st)"

definition event_loop ::
  "'x transport \<Rightarrow> 'x observer \<Rightarrow> jsstring \<Rightarrow> int option \<Rightarrow> action list \<Rightarrow> 'x session" where
  "event_loop api_get onUpdate taskId pollInterval actions =
     foldl (event api_get onUpdate taskId (interval_of pollInterval))
       (poll_start taskId new_session) actions"

section \<open>services/api.ts: the submission client\<close>







text \<open>
  \<open>FormData.append\<close> takes a string value as a \<open>USVString\<close>: a surrogate code unit that is
  not part of a pair (a high surrogate followed by a low one) is replaced by U+FFFD.
\<close>

definition is_high_surrogate :: "nat \<Rightarrow> bool" where
  "is_high_surrogate c = (55296 \<le> c \<and> c \<le> 56319)"

definition is_low_surrogate :: "nat \<Rightarrow> bool" where
  "is_low_surrogate c = (56320 \<le> c \<and> c \<le> 57343)"

fun toUSVString :: "jsstring \<Rightarrow> jsstring" where
  "toUSVString [] = []"
| "toUSVString [c] = [if is_high_surrogate c \<or> is_low_surrogate c then 65533 else c]"
| "toUSVString (c # d # s) =
     (if is_high_surrogate c \<and> is_low_surrogate d then c # d # toUSVString s
      else if is_high_surrogate c \<or> is_low_surrogate c then 65533 # toUSVString (d # s)
      else c # toUSVString (d # s))"

text \<open>
  A \<open>FormData\<close> is the list of its entries in the order they were appended; a value is a
  file, stored as it is, or a string, stored as a \<open>USVString\<close>. The names are literals of
  the source.
\<close>

datatype 'f FormValue = FileValue 'f | StringValue jsstring

type_synonym 'f FormData = "(jsstring \<times> 'f FormValue) list"

fun stored_value :: "'f FormValue \<Rightarrow> 'f FormValue" where
  "stored_value (FileValue f) = FileValue f"
| "stored_value (StringValue s) = StringValue (toUSVString s)"

definition formData_append :: "'f FormData \<Rightarrow> jsstring \<Rightarrow> 'f FormValue \<Rightarrow> 'f FormData" where
  "formData_append formData name v = formData @ [(name, stored_value v)]"








text \<open>The values appended to a form under a name, in order.\<close>

definition form_get_all :: "'f FormData \<Rightarrow> jsstring \<Rightarrow> 'f FormValue list" where
  "form_get_all formData name = map snd (filter (\<lambda>entry. fst entry = name) formData)"




section \<open>utils/link-validation.ts\<close>

text \<open>
  The code units \<open>trim\<close> removes from both ends: the white space and line terminators
  of ECMAScript.
\<close>

definition isWhiteSpace :: "nat \<Rightarrow> bool" where
  "isWhiteSpace c =
     (c \<in> {9, 10, 11, 12, 13, 32, 160, 5760, 8232, 8233, 8239, 8287, 12288, 65279} \<or>
      (8192 \<le> c \<and> c \<le> 8202))"

definition trim :: "jsstring \<Rightarrow> jsstring" where
  "trim s = rev (dropWhile isWhiteSpace (rev (dropWhile isWhiteSpace s)))"

text \<open>\<open>s.includes(t)\<close>: \<open>t\<close> occurs in \<open>s\<close> at some position.\<close>

fun includes_js :: "jsstring \<Rightarrow> jsstring \<Rightarrow> bool" where
  "includes_js [] t = (t = [])"
| "includes_js (c # s) t = (prefix t (c # s) \<or> includes_js s t)"

datatype Platform = Youtube | Vimeo | GoogleDrive

fun platform_name :: "Platform \<Rightarrow> jsstring" where
  "platform_name Youtube = js ''youtube''"
| "platform_name Vimeo = js ''vimeo''"
| "platform_name GoogleDrive = js ''google-drive''"

record LinkValidation =
  isValid :: bool
  platform :: "Platform option"
  error :: "jsstring option"

text \<open>
  \<open>new URL(url)\<close> is the platform's parser and a parameter: \<open>url_hostname url\<close> is
  \<open>None\<close> when the constructor throws and the \<open>hostname\<close> of the parsed URL otherwise.
\<close>

definition validateVideoLink :: "(jsstring \<Rightarrow> jsstring option) \<Rightarrow> jsstring \<Rightarrow> LinkValidation" where
  "validateVideoLink url_hostname url =
     (if trim url = [] then
        \<lparr>isValid = False, platform = None, error = Some (js ''Please enter a URL'')\<rparr>
      else
        (case url_hostname url of
           None \<Rightarrow> \<lparr>isValid = False, platform = None, error = Some (js ''Please enter a valid URL'')\<rparr>
         | Some hostname \<Rightarrow>
             if includes_js hostname (js ''youtube.com'') \<or> includes_js hostname (js ''youtu.be'') then
               \<lparr>isValid = True, platform = Some Youtube, error = None\<rparr>
             else if includes_js hostname (js ''vimeo.com'') then
               \<lparr>isValid = True, platform = Some Vimeo, error = None\<rparr>
             else if includes_js hostname (js ''drive.google.com'') then
               \<lparr>isValid = True, platform = Some GoogleDrive, error = None\<rparr>
             else
               \<lparr>isValid = False, platform = None,
                error = Some (js ''Only YouTube, Vimeo, and Google Drive links are supported'')\<rparr>))"

text \<open>
  A stand-in for the parser on the inputs of the examples: the host of an
  \<open>https://host/path\<close> address, and a failure on anything else.
\<close>

definition https_hostname :: "jsstring \<Rightarrow> jsstring option" where
  "https_hostname url =
     (if prefix (js ''https://'') url
      then Some (takeWhile (\<lambda>c. c \<noteq> of_char CHR ''/'') (drop 8 url))
      else None)"


section \<open>Reading a session\<close>

text \<open>
  \<open>continues \<dots> i\<close>: the \<open>i\<close>-th request is answered, the observer returns, and the
  status of the snapshot as the observer leaves it is neither \<open>success\<close> nor \<open>failure\<close>.
\<close>

definition continues :: "'x transport \<Rightarrow> 'x observer \<Rightarrow> jsstring \<Rightarrow> nat \<Rightarrow> bool" where
  "continues api_get onUpdate taskId i =
     (case api_get (status_url taskId) i of
        Inl e \<Rightarrow> False
      | Inr s \<Rightarrow>
          (case onUpdate i s of
             Inl v \<Rightarrow> False
           | Inr s' \<Rightarrow> status s' \<noteq> js ''success'' \<and> status s' \<noteq> js ''failure''))"

text \<open>The events of the \<open>i\<close>-th run of \<open>poll\<close>, and the outcome it settles on, if any.\<close>

definition poll_events ::
  "'x transport \<Rightarrow> 'x observer \<Rightarrow> jsstring \<Rightarrow> int \<Rightarrow> nat \<Rightarrow> 'x event list" where
  "poll_events api_get onUpdate taskId pollInterval i =
     GetIssued (status_url taskId) #
     (case api_get (status_url taskId) i of
        Inl e \<Rightarrow> [GetFailed e, RejectCalled (Thrown e)]
      | Inr s \<Rightarrow>
          GetReturned s # OnUpdateCalled s #
          (case onUpdate i s of
             Inl v \<Rightarrow> [OnUpdateThrew v, RejectCalled (Thrown v)]
           | Inr s' \<Rightarrow>
               OnUpdateReturned s' #
               (if status s' = js ''success'' then [ResolveCalled s']
                else if status s' = js ''failure'' then
                  [RejectCalled (ErrorObject (or_else (error_message s') (js ''Task failed'')))]
                else [SetTimeoutCalled pollInterval])))"

definition poll_outcome ::
  "'x transport \<Rightarrow> 'x observer \<Rightarrow> jsstring \<Rightarrow> nat \<Rightarrow> 'x settled option" where
  "poll_outcome api_get onUpdate taskId i =
     (case api_get (status_url taskId) i of
        Inl e \<Rightarrow> Some (Rejected (Thrown e))
      | Inr s \<Rightarrow>
          (case onUpdate i s of
             Inl v \<Rightarrow> Some (Rejected (Thrown v))
           | Inr s' \<Rightarrow>
               if status s' = js ''success'' then Some (Fulfilled s')
               else if status s' = js ''failure'' then
                 Some (Rejected (ErrorObject (or_else (error_message s') (js ''Task failed''))))
               else None))"

text \<open>The events of the first \<open>k\<close> runs of \<open>poll\<close>.\<close>

definition rounds ::
  "'x transport \<Rightarrow> 'x observer \<Rightarrow> jsstring \<Rightarrow> int \<Rightarrow> nat \<Rightarrow> 'x event list" where
  "rounds api_get onUpdate taskId pollInterval k =
     concat (map (poll_events api_get onUpdate taskId pollInterval) [0..<k])"

text \<open>
  The session when \<open>k\<close> runs of \<open>poll\<close> have set the timer and the last timer has
  expired, so that \<open>poll\<close> is about to run for the \<open>k\<close>-th time (counting from 0).
\<close>

definition idle_session ::
  "'x transport \<Rightarrow> 'x observer \<Rightarrow> jsstring \<Rightarrow> int \<Rightarrow> nat \<Rightarrow> 'x session" where
  "idle_session api_get onUpdate taskId iv k =
     \<lparr>promise = None, log = rounds api_get onUpdate taskId iv k,
      requests = k, updates = k, in_flight = [], timers = 0\<rparr>"

text \<open>
  A session whose first \<open>n\<close> runs of \<open>poll\<close> set the timer and whose next run does not
  ends after that run, in this state.
\<close>

definition final_session ::
  "'x transport \<Rightarrow> 'x observer \<Rightarrow> jsstring \<Rightarrow> int \<Rightarrow> nat \<Rightarrow> 'x session" where
  "final_session api_get onUpdate taskId iv n =
     \<lparr>promise = poll_outcome api_get onUpdate taskId n,
      log = rounds api_get onUpdate taskId iv n @ poll_events api_get onUpdate taskId iv n,
      requests = Suc n,
      updates = (case api_get (status_url taskId) n of Inl e \<Rightarrow> n | Inr s \<Rightarrow> Suc n),
      in_flight = [], timers = 0\<rparr>"

text \<open>
  A run of \<open>poll\<close> that ends the session: the request fails, or the observer throws, or
  the status of the snapshot as the observer leaves it is \<open>success\<close> or \<open>failure\<close>.
\<close>

definition terminal_run :: "'x transport \<Rightarrow> 'x observer \<Rightarrow> jsstring \<Rightarrow> nat \<Rightarrow> bool" where
  "terminal_run api_get onUpdate taskId i =
     (case api_get (status_url taskId) i of
        Inl e \<Rightarrow> True
      | Inr s \<Rightarrow>
          (case onUpdate i s of
             Inl v \<Rightarrow> True
           | Inr s' \<Rightarrow> status s' = js ''success'' \<or> status s' = js ''failure''))"

text \<open>A reply that is a transport error or carries the status \<open>success\<close> or \<open>failure\<close>.\<close>

definition terminal_reply :: "'x + VoiceCloneStatusResponse \<Rightarrow> bool" where
  "terminal_reply r =
     (case r of Inl e \<Rightarrow> True | Inr s \<Rightarrow> status s = js ''success'' \<or> status s = js ''failure'')"

fun is_fetch :: "'x event \<Rightarrow> bool" where
  "is_fetch (GetIssued u) = True"
| "is_fetch _ = False"

fun is_response :: "'x event \<Rightarrow> bool" where
  "is_response (GetReturned s) = True"
| "is_response _ = False"

fun is_update_done :: "'x event \<Rightarrow> bool" where
  "is_update_done (OnUpdateReturned s) = True"
| "is_update_done _ = False"

fun is_resolve :: "'x event \<Rightarrow> bool" where
  "is_resolve (ResolveCalled s) = True"
| "is_resolve _ = False"

fun is_reject :: "'x event \<Rightarrow> bool" where
  "is_reject (RejectCalled r) = True"
| "is_reject _ = False"

definition fetches :: "'x event list \<Rightarrow> nat" where
  "fetches es = length (filter is_fetch es)"

definition responses :: "'x event list \<Rightarrow> nat" where
  "responses es = length (filter is_response es)"

definition updates_done :: "'x event list \<Rightarrow> nat" where
  "updates_done es = length (filter is_update_done es)"

definition resolve_calls :: "'x event list \<Rightarrow> nat" where
  "resolve_calls es = length (filter is_resolve es)"

definition reject_calls :: "'x event list \<Rightarrow> nat" where
  "reject_calls es = length (filter is_reject es)"

text \<open>The snapshots the observer was called with, and the snapshots received, in order.\<close>

fun observed :: "'x event list \<Rightarrow> VoiceCloneStatusResponse list" where
  "observed [] = []"
| "observed (OnUpdateCalled s # es) = s # observed es"
| "observed (e # es) = observed es"

fun received :: "'x event list \<Rightarrow> VoiceCloneStatusResponse list" where
  "received [] = []"
| "received (GetReturned s # es) = s # received es"
| "received (e # es) = received es"

subsection \<open>Concrete collaborators\<close>

text \<open>
  A transport that answers from a script and then with a fixed reply; an observer that
  returns and leaves the snapshot as it is; one that throws at a chosen invocation; one
  that writes a status into the snapshot at a chosen invocation, and one that writes an
  error message.
\<close>

definition replay ::
  "('x + VoiceCloneStatusResponse) list \<Rightarrow> 'x + VoiceCloneStatusResponse \<Rightarrow> 'x transport" where
  "replay script rest url k = (if k < length script then script ! k else rest)"

definition quiet :: "'x observer" where
  "quiet k s = Inr s"

definition throws_at :: "nat \<Rightarrow> 'x \<Rightarrow> 'x observer" where
  "throws_at n v k s = (if k = n then Inl v else Inr s)"

definition sets_status_at :: "nat \<Rightarrow> string \<Rightarrow> 'x observer" where
  "sets_status_at n v k s = (if k = n then Inr (s\<lparr>status := js v\<rparr>) else Inr s)"

definition sets_status :: "string \<Rightarrow> 'x observer" where
  "sets_status v k s = Inr (s\<lparr>status := js v\<rparr>)"

definition sets_message :: "string \<Rightarrow> 'x observer" where
  "sets_message v k s = Inr (s\<lparr>error_message := Some (js v)\<rparr>)"

definition snapshot :: "string \<Rightarrow> jsstring option \<Rightarrow> VoiceCloneStatusResponse" where
  "snapshot st msg =
     \<lparr>task_id = js ''t1'', status = js st, progress = None, result_url = None,
      error_message = msg, estimated_completion = None\<rparr>"

text \<open>The replies pending, processing, processing, success.\<close>

definition four_statuses :: "nat transport" where
  "four_statuses =
     replay [Inr (snapshot ''pending'' None), Inr (snapshot ''processing'' None),
             Inr (snapshot ''processing'' None), Inr (snapshot ''success'' None)] (Inl 0)"

text \<open>The environment in which each answer arrives and each timer expires in turn.\<close>

primrec in_turn :: "nat \<Rightarrow> action list" where
  "in_turn 0 = []"
| "in_turn (Suc k) = in_turn k @ [ResponseArrives k, TimerExpires]"


section \<open>Properties of the status poller\<close>

lemma js_success_failure: "js ''success'' \<noteq> js ''failure''"
  by (simp add: js_def)

lemma rounds_0: "rounds api_get onUpdate taskId iv 0 = []"
  by (simp add: rounds_def)

lemma rounds_Suc:
  "rounds api_get onUpdate taskId iv (Suc k) =
   rounds api_get onUpdate taskId iv k @ poll_events api_get onUpdate taskId iv k"
  by (simp add: rounds_def)

lemma new_session_idle: "new_session = idle_session api_get onUpdate taskId iv 0"
  by (simp add: new_session_def idle_session_def rounds_0)

lemma poll_start_idle:
  "poll_start taskId (idle_session api_get onUpdate taskId iv k) =
     \<lparr>promise = None,
      log = rounds api_get onUpdate taskId iv k @ [GetIssued (status_url taskId)],
      requests = Suc k, updates = k, in_flight = [k], timers = 0\<rparr>"
  by (simp add: poll_start_def getVoiceCloneStatus_call_def emit_def idle_session_def)

lemma poll_resume_started:
  "poll_resume api_get onUpdate taskId iv k
     \<lparr>promise = None, log = L @ [GetIssued (status_url taskId)],
      requests = Suc k, updates = k, in_flight = [k], timers = 0\<rparr> =
     (\<lparr>promise = poll_outcome api_get onUpdate taskId k,
       log = L @ poll_events api_get onUpdate taskId iv k,
       requests = Suc k,
       updates = (case api_get (status_url taskId) k of Inl e \<Rightarrow> k | Inr s \<Rightarrow> Suc k),
       in_flight = [],
       timers = (if continues api_get onUpdate taskId k then Suc 0 else 0)\<rparr>,
      continues api_get onUpdate taskId k)"
  by (auto simp: poll_resume_def getVoiceCloneStatus_return_def callOnUpdate_def emit_def
      resolve_def reject_def setTimeout_poll_def poll_events_def poll_outcome_def continues_def
      Let_def split: sum.splits)

lemma poll_idle:
  "poll api_get onUpdate taskId iv (idle_session api_get onUpdate taskId iv k) =
     (\<lparr>promise = poll_outcome api_get onUpdate taskId k,
       log = rounds api_get onUpdate taskId iv (Suc k),
       requests = Suc k,
       updates = (case api_get (status_url taskId) k of Inl e \<Rightarrow> k | Inr s \<Rightarrow> Suc k),
       in_flight = [],
       timers = (if continues api_get onUpdate taskId k then Suc 0 else 0)\<rparr>,
      continues api_get onUpdate taskId k)"
proof -
  have "requests (idle_session api_get onUpdate taskId iv k) = k"
    by (simp add: idle_session_def)
  then show ?thesis
    by (simp add: poll_def poll_start_idle poll_resume_started rounds_Suc)
qed

lemma continues_no_outcome:
  "continues api_get onUpdate taskId i \<Longrightarrow> poll_outcome api_get onUpdate taskId i = None"
  by (auto simp: continues_def poll_outcome_def split: sum.splits)

lemma stops_outcome:
  "\<not> continues api_get onUpdate taskId i \<Longrightarrow>
   \<exists>r. poll_outcome api_get onUpdate taskId i = Some r"
  by (auto simp: continues_def poll_outcome_def split: sum.splits)

lemma continues_reply:
  assumes "continues api_get onUpdate taskId i"
  obtains s where "api_get (status_url taskId) i = Inr s"
  using assms by (cases "api_get (status_url taskId) i") (simp_all add: continues_def)

lemma poll_continues:
  assumes "continues api_get onUpdate taskId k"
  shows "poll api_get onUpdate taskId iv (idle_session api_get onUpdate taskId iv k) =
     (\<lparr>promise = None, log = rounds api_get onUpdate taskId iv (Suc k),
       requests = Suc k, updates = Suc k, in_flight = [], timers = Suc 0\<rparr>, True)"
proof -
  from assms obtain s where "api_get (status_url taskId) k = Inr s"
    by (rule continues_reply)
  then show ?thesis
    using assms continues_no_outcome [OF assms] by (simp add: poll_idle)
qed

lemma poll_stops:
  assumes "\<not> continues api_get onUpdate taskId k"
  shows "poll api_get onUpdate taskId iv (idle_session api_get onUpdate taskId iv k) =
     (final_session api_get onUpdate taskId iv k, False)"
  using assms by (simp add: poll_idle final_session_def rounds_Suc)

lemma timer_expires_idle:
  "timer_expires \<lparr>promise = None, log = rounds api_get onUpdate taskId iv (Suc k),
       requests = Suc k, updates = Suc k, in_flight = [], timers = Suc 0\<rparr> =
   idle_session api_get onUpdate taskId iv (Suc k)"
  by (simp add: timer_expires_def idle_session_def)

lemma poll_upto_continues:
  assumes "\<forall>j<k. continues api_get onUpdate taskId (i + j)"
  shows "poll_upto k api_get onUpdate taskId iv (idle_session api_get onUpdate taskId iv i) =
     (idle_session api_get onUpdate taskId iv (i + k), True)"
  using assms
proof (induction k arbitrary: i)
  case 0
  then show ?case by simp
next
  case (Suc k)
  from Suc.prems have c0: "continues api_get onUpdate taskId i"
    by (metis add.right_neutral zero_less_Suc)
  from Suc.prems have rest: "\<forall>j<k. continues api_get onUpdate taskId (Suc i + j)"
    by (metis Suc_less_eq add_Suc_shift)
  have "poll_upto k api_get onUpdate taskId iv (idle_session api_get onUpdate taskId iv (Suc i)) =
     (idle_session api_get onUpdate taskId iv (Suc i + k), True)"
    using rest by (rule Suc.IH)
  then show ?case
    by (simp add: poll_continues [OF c0] timer_expires_idle)
qed

lemma poll_loop_upto:
  "poll_upto k api_get onUpdate taskId iv st = (st', True) \<Longrightarrow>
   poll_loop api_get onUpdate taskId iv st = poll_loop api_get onUpdate taskId iv st'"
proof (induction k arbitrary: st)
  case 0
  then show ?case by simp
next
  case (Suc k)
  obtain st1 again where p: "poll api_get onUpdate taskId iv st = (st1, again)"
    by (cases "poll api_get onUpdate taskId iv st")
  with Suc.prems have again: "again"
    and up: "poll_upto k api_get onUpdate taskId iv (timer_expires st1) = (st', True)"
    by (auto split: if_splits)
  have "poll_loop api_get onUpdate taskId iv st =
      poll_loop api_get onUpdate taskId iv (timer_expires st1)"
    using p again by (subst poll_loop.simps) simp
  also have "\<dots> = poll_loop api_get onUpdate taskId iv st'"
    by (rule Suc.IH [OF up])
  finally show ?case .
qed

lemma poll_loop_stop:
  "poll api_get onUpdate taskId iv st = (st', False) \<Longrightarrow>
   poll_loop api_get onUpdate taskId iv st = Some st'"
  by (subst poll_loop.simps) simp

lemma observe_continues:
  assumes "\<forall>j<n. continues api_get onUpdate taskId j"
  shows "observe n api_get onUpdate taskId pollInterval =
     (idle_session api_get onUpdate taskId (interval_of pollInterval) n, True)"
  using poll_upto_continues [of n api_get onUpdate taskId 0 "interval_of pollInterval"] assms
  by (simp add: observe_def
      new_session_idle [of api_get onUpdate taskId "interval_of pollInterval"])

lemma session_run:
  assumes cont: "\<forall>j<n. continues api_get onUpdate taskId j"
    and stop: "\<not> continues api_get onUpdate taskId n"
  shows "pollTaskStatus api_get onUpdate taskId pollInterval =
     Some (final_session api_get onUpdate taskId (interval_of pollInterval) n)"
proof -
  let ?iv = "interval_of pollInterval"
  let ?stn = "idle_session api_get onUpdate taskId ?iv n"
  have "poll_upto n api_get onUpdate taskId ?iv new_session = (?stn, True)"
    using observe_continues [OF cont, of pollInterval] by (simp add: observe_def)
  then have 1: "poll_loop api_get onUpdate taskId ?iv new_session =
      poll_loop api_get onUpdate taskId ?iv ?stn"
    by (rule poll_loop_upto)
  have "poll api_get onUpdate taskId ?iv ?stn =
      (final_session api_get onUpdate taskId ?iv n, False)"
    using stop by (rule poll_stops)
  then have "poll_loop api_get onUpdate taskId ?iv ?stn =
      Some (final_session api_get onUpdate taskId ?iv n)"
    by (rule poll_loop_stop)
  with 1 show ?thesis
    by (simp add: pollTaskStatus_def)
qed

lemma run_once:
  assumes "\<not> continues api_get onUpdate taskId 0"
  shows "pollTaskStatus api_get onUpdate taskId pollInterval =
     Some (final_session api_get onUpdate taskId (interval_of pollInterval) 0)"
  using session_run [of 0 api_get onUpdate taskId pollInterval] assms by simp

lemma poll_upto_Suc_end:
  "poll_upto k api_get onUpdate taskId iv st = (st', True) \<Longrightarrow>
   poll_upto (Suc k) api_get onUpdate taskId iv st =
     (case poll api_get onUpdate taskId iv st' of
        (st'', again) \<Rightarrow> if again then (timer_expires st'', True) else (st'', False))"
proof (induction k arbitrary: st)
  case 0
  then show ?case by (simp split: prod.splits)
next
  case (Suc k)
  obtain st1 again where p: "poll api_get onUpdate taskId iv st = (st1, again)"
    by (cases "poll api_get onUpdate taskId iv st")
  with Suc.prems have again: "again"
    and up: "poll_upto k api_get onUpdate taskId iv (timer_expires st1) = (st', True)"
    by (auto split: if_splits)
  have "poll_upto (Suc (Suc k)) api_get onUpdate taskId iv st =
      poll_upto (Suc k) api_get onUpdate taskId iv (timer_expires st1)"
    using p again by simp
  also have "\<dots> = (case poll api_get onUpdate taskId iv st' of
        (st'', again) \<Rightarrow> if again then (timer_expires st'', True) else (st'', False))"
    by (rule Suc.IH [OF up])
  finally show ?case .
qed

lemma poll_upto_stable:
  "poll_upto k api_get onUpdate taskId iv st = (st', False) \<Longrightarrow> k \<le> k' \<Longrightarrow>
   poll_upto k' api_get onUpdate taskId iv st = (st', False)"
proof (induction k arbitrary: st k')
  case 0
  then show ?case by simp
next
  case (Suc k)
  from Suc.prems(2) obtain k'' where k': "k' = Suc k''" and le: "k \<le> k''"
    by (cases k') simp_all
  obtain st1 again where p: "poll api_get onUpdate taskId iv st = (st1, again)"
    by (cases "poll api_get onUpdate taskId iv st")
  show ?case
  proof (cases again)
    case True
    with p Suc.prems(1)
    have "poll_upto k api_get onUpdate taskId iv (timer_expires st1) = (st', False)"
      by simp
    then have "poll_upto k'' api_get onUpdate taskId iv (timer_expires st1) = (st', False)"
      using le by (rule Suc.IH)
    with p True show ?thesis by (simp add: k')
  next
    case False
    with p Suc.prems(1) show ?thesis by (simp add: k')
  qed
qed

lemma poll_loop_complete:
  assumes "poll_loop api_get onUpdate taskId iv st = Some st'"
  shows "\<exists>k. poll_upto k api_get onUpdate taskId iv st = (st', False)"
proof (rule poll_loop.raw_induct
    [where P = "\<lambda>a b c d s s'. \<exists>k. poll_upto k a b c d s = (s', False)", OF _ assms])
  fix f :: "'a transport \<Rightarrow> 'a observer \<Rightarrow> jsstring \<Rightarrow> int \<Rightarrow> 'a session \<Rightarrow> 'a session option"
    and a b c d s s'
  assume ih: "\<And>a b c d s s'. f a b c d s = Some s' \<Longrightarrow> \<exists>k. poll_upto k a b c d s = (s', False)"
    and eq: "(case poll a b c d s of
                (st', again) \<Rightarrow> if again then f a b c d (timer_expires st') else Some st') = Some s'"
  obtain st1 again where p: "poll a b c d s = (st1, again)"
    by (cases "poll a b c d s")
  show "\<exists>k. poll_upto k a b c d s = (s', False)"
  proof (cases again)
    case True
    with p eq have "f a b c d (timer_expires st1) = Some s'"
      by simp
    then obtain k where "poll_upto k a b c d (timer_expires st1) = (s', False)"
      using ih by blast
    with p True have "poll_upto (Suc k) a b c d s = (s', False)"
      by simp
    then show ?thesis ..
  next
    case False
    with p eq have "poll_upto (Suc 0) a b c d s = (s', False)"
      by simp
    then show ?thesis ..
  qed
qed

lemma first_stop:
  assumes "\<not> continues api_get onUpdate taskId m"
  obtains n where "\<forall>j<n. continues api_get onUpdate taskId j"
    and "\<not> continues api_get onUpdate taskId n" and "n \<le> m"
proof -
  let ?n = "LEAST n. \<not> continues api_get onUpdate taskId n"
  have "\<not> continues api_get onUpdate taskId ?n"
    using assms by (rule LeastI)
  moreover have "\<forall>j<?n. continues api_get onUpdate taskId j"
    using not_less_Least by blast
  moreover have "?n \<le> m"
    using assms by (rule Least_le)
  ultimately show ?thesis using that by blast
qed

lemma observe_stop:
  assumes before: "\<forall>j<n. continues api_get onUpdate taskId j"
    and stop: "\<not> continues api_get onUpdate taskId n"
  shows "observe (Suc n) api_get onUpdate taskId pollInterval =
     (final_session api_get onUpdate taskId (interval_of pollInterval) n, False)"
proof -
  let ?iv = "interval_of pollInterval"
  have "poll_upto n api_get onUpdate taskId ?iv new_session =
      (idle_session api_get onUpdate taskId ?iv n, True)"
    using observe_continues [OF before, of pollInterval] by (simp add: observe_def)
  then have "poll_upto (Suc n) api_get onUpdate taskId ?iv new_session =
      (case poll api_get onUpdate taskId ?iv (idle_session api_get onUpdate taskId ?iv n) of
        (st'', again) \<Rightarrow> if again then (timer_expires st'', True) else (st'', False))"
    by (rule poll_upto_Suc_end)
  then show ?thesis
    by (simp add: observe_def poll_stops [OF stop])
qed

text \<open>A session that goes on for ever has no final state.\<close>

lemma never_ends:
  assumes "\<forall>j. continues api_get onUpdate taskId j"
  shows "pollTaskStatus api_get onUpdate taskId pollInterval = None"
proof (cases "pollTaskStatus api_get onUpdate taskId pollInterval")
  case None
  then show ?thesis .
next
  case (Some st)
  then have "poll_loop api_get onUpdate taskId (interval_of pollInterval) new_session = Some st"
    by (simp add: pollTaskStatus_def)
  then have "\<exists>k. poll_upto k api_get onUpdate taskId (interval_of pollInterval) new_session =
      (st, False)"
    by (rule poll_loop_complete)
  then obtain k where
    "poll_upto k api_get onUpdate taskId (interval_of pollInterval) new_session = (st, False)" ..
  moreover have "observe k api_get onUpdate taskId pollInterval =
     (idle_session api_get onUpdate taskId (interval_of pollInterval) k, True)"
    using assms by (intro observe_continues) simp
  ultimately show ?thesis
    by (simp add: observe_def)
qed

lemma fetches_append: "fetches (xs @ ys) = fetches xs + fetches ys"
  by (simp add: fetches_def)

lemma fetches_poll_events: "fetches (poll_events api_get onUpdate taskId iv i) = 1"
  by (simp add: fetches_def poll_events_def split: sum.splits)

lemma fetches_rounds: "fetches (rounds api_get onUpdate taskId iv n) = n"
proof (induction n)
  case 0
  show ?case by (simp add: rounds_0 fetches_def)
next
  case (Suc n)
  then show ?case by (simp add: rounds_Suc fetches_append fetches_poll_events)
qed

lemma settle_append:
  "resolve_calls (xs @ ys) = resolve_calls xs + resolve_calls ys"
  "reject_calls (xs @ ys) = reject_calls xs + reject_calls ys"
  by (simp_all add: resolve_calls_def reject_calls_def)

lemma settle_continues:
  assumes "continues api_get onUpdate taskId i"
  shows "resolve_calls (poll_events api_get onUpdate taskId iv i) = 0"
    and "reject_calls (poll_events api_get onUpdate taskId iv i) = 0"
  using assms
  by (auto simp: continues_def poll_events_def resolve_calls_def reject_calls_def
      split: sum.splits)

lemma settle_stops:
  assumes "\<not> continues api_get onUpdate taskId i"
  shows "resolve_calls (poll_events api_get onUpdate taskId iv i) +
         reject_calls (poll_events api_get onUpdate taskId iv i) = 1"
  using assms
  by (auto simp: continues_def poll_events_def resolve_calls_def reject_calls_def
      split: sum.splits)

lemma settle_rounds:
  assumes "\<forall>j<n. continues api_get onUpdate taskId j"
  shows "resolve_calls (rounds api_get onUpdate taskId iv n) = 0"
    and "reject_calls (rounds api_get onUpdate taskId iv n) = 0"
proof -
  show "resolve_calls (rounds api_get onUpdate taskId iv n) = 0"
    using assms
  proof (induction n)
    case 0
    show ?case by (simp add: rounds_0 resolve_calls_def)
  next
    case (Suc n)
    then show ?case by (simp add: rounds_Suc settle_append settle_continues)
  qed
  show "reject_calls (rounds api_get onUpdate taskId iv n) = 0"
    using assms
  proof (induction n)
    case 0
    show ?case by (simp add: rounds_0 reject_calls_def)
  next
    case (Suc n)
    then show ?case by (simp add: rounds_Suc settle_append settle_continues)
  qed
qed

lemma terminal_run_stops:
  "terminal_run api_get onUpdate taskId m = (\<not> continues api_get onUpdate taskId m)"
  by (auto simp: terminal_run_def continues_def split: sum.splits)

lemma final_session_fetches:
  "fetches (log (final_session api_get onUpdate taskId iv n)) = Suc n"
  by (simp add: final_session_def fetches_append fetches_rounds fetches_poll_events)

lemma observed_append: "observed (xs @ ys) = observed xs @ observed ys"
  by (induction xs rule: observed.induct) simp_all

lemma received_append: "received (xs @ ys) = received xs @ received ys"
  by (induction xs rule: received.induct) simp_all

lemma snapshot_fields:
  "status (snapshot st msg) = js st" "error_message (snapshot st msg) = msg"
  by (simp_all add: snapshot_def)

lemma js_known_statuses:
  "js ''pending'' \<noteq> js ''success''" "js ''pending'' \<noteq> js ''failure''"
  "js ''processing'' \<noteq> js ''success''" "js ''processing'' \<noteq> js ''failure''"
  "js ''queued'' \<noteq> js ''success''" "js ''queued'' \<noteq> js ''failure''"
  by (simp_all add: js_def)

lemma four_statuses_replies:
  "four_statuses u 0 = Inr (snapshot ''pending'' None)"
  "four_statuses u 1 = Inr (snapshot ''processing'' None)"
  "four_statuses u (Suc 0) = Inr (snapshot ''processing'' None)"
  "four_statuses u 2 = Inr (snapshot ''processing'' None)"
  "four_statuses u 3 = Inr (snapshot ''success'' None)"
  by (simp_all add: four_statuses_def replay_def)

lemma upt_3: "[0..<3] = [0, Suc 0, 2]"
  by (simp add: numeral_3_eq_3 numeral_2_eq_2)

lemma all_less_3: "(\<forall>j<3. P j) = (P 0 \<and> P (Suc 0) \<and> P 2)"
  by (auto simp: numeral_3_eq_3 numeral_2_eq_2 less_Suc_eq)

lemma all_less_2: "(\<forall>j<2. P j) = (P 0 \<and> P (Suc 0))"
  by (auto simp: numeral_2_eq_2 less_Suc_eq)

lemma rounds_1:
  "rounds api_get onUpdate taskId iv (Suc 0) = poll_events api_get onUpdate taskId iv 0"
  by (simp add: rounds_def)

lemma rounds_2:
  "rounds api_get onUpdate taskId iv 2 =
   poll_events api_get onUpdate taskId iv 0 @ poll_events api_get onUpdate taskId iv (Suc 0)"
  by (simp add: rounds_def numeral_2_eq_2)

lemma rounds_3:
  "rounds api_get onUpdate taskId iv 3 =
   poll_events api_get onUpdate taskId iv 0 @ poll_events api_get onUpdate taskId iv (Suc 0) @
   poll_events api_get onUpdate taskId iv 2"
  by (simp add: rounds_def upt_3)


text \<open>
  Claim C1, as amended: whatever the task identifier and the interval, when some run of
  \<open>poll\<close> is terminal (its request fails, or the observer throws in it, or the snapshot
  has the status \<open>success\<close> or \<open>failure\<close> when the observer has returned), the session
  ends, the promise is settled, and the calls of \<open>resolve\<close> and \<open>reject\<close> together are
  exactly one. Every invocation of the observer is taken to end.
\<close>

theorem pollTaskStatus_settles_once:
  assumes "\<exists>m. terminal_run api_get onUpdate taskId m"
  shows "\<exists>st. pollTaskStatus api_get onUpdate taskId pollInterval = Some st \<and>
           promise st \<noteq> None \<and>
           resolve_calls (log st) + reject_calls (log st) = 1"
proof -
  from assms obtain m where "\<not> continues api_get onUpdate taskId m"
    by (auto simp: terminal_run_stops)
  then obtain n where cont: "\<forall>j<n. continues api_get onUpdate taskId j"
    and stop: "\<not> continues api_get onUpdate taskId n"
    by (rule first_stop)
  let ?st = "final_session api_get onUpdate taskId (interval_of pollInterval) n"
  have "pollTaskStatus api_get onUpdate taskId pollInterval = Some ?st"
    using cont stop by (rule session_run)
  moreover have "promise ?st \<noteq> None"
    using stops_outcome [OF stop] by (auto simp: final_session_def)
  moreover have "resolve_calls (log ?st) + reject_calls (log ?st) = 1"
    using settle_rounds [OF cont, of "interval_of pollInterval"]
      settle_stops [OF stop, of "interval_of pollInterval"]
    by (simp add: final_session_def settle_append)
  ultimately show ?thesis by blast
qed

theorem pollTaskStatus_settles_once_witness:
  "terminal_run
     (replay [Inr (snapshot ''pending'' None), Inr (snapshot ''success'' None)] (Inl (0::nat)))
     quiet (js ''t1'') 1 \<and>
   (\<exists>st. pollTaskStatus
            (replay [Inr (snapshot ''pending'' None), Inr (snapshot ''success'' None)] (Inl (0::nat)))
            quiet (js ''t1'') None = Some st \<and>
          promise st \<noteq> None \<and> resolve_calls (log st) + reject_calls (log st) = 1)"
proof -
  let ?get = "replay [Inr (snapshot ''pending'' None), Inr (snapshot ''success'' None)]
      (Inl (0::nat))"
  have t: "terminal_run ?get quiet (js ''t1'') 1"
    by (simp add: terminal_run_def replay_def quiet_def snapshot_fields)
  then have h: "\<exists>m. terminal_run ?get quiet (js ''t1'') m" ..
  show ?thesis
    using t pollTaskStatus_settles_once
      [where api_get = ?get and taskId = "js ''t1''" and onUpdate = quiet
        and pollInterval = None, OF h]
    by blast
qed

text \<open>
  As stated, for every sequence of replies that holds a terminal status, the claim fails:
  the code reads the status from the snapshot object after the observer has had it. With
  every reply \<open>success\<close> and an observer that writes \<open>pending\<close> into the object and
  returns, every run sets the timer, and the session never ends.
\<close>

theorem pollTaskStatus_settles_once_counterexample:
  "terminal_reply
     ((replay [] (Inr (snapshot ''success'' None)) :: nat transport) (status_url (js ''t1'')) 0) \<and>
   pollTaskStatus (replay [] (Inr (snapshot ''success'' None)) :: nat transport)
     (sets_status ''pending'') (js ''t1'') None = None"
proof -
  let ?get = "replay [] (Inr (snapshot ''success'' None)) :: nat transport"
  have "terminal_reply (?get (status_url (js ''t1'')) 0)"
    by (simp add: terminal_reply_def replay_def snapshot_fields)
  moreover have "\<forall>j. continues ?get (sets_status ''pending'') (js ''t1'') j"
    using js_known_statuses by (simp add: continues_def replay_def sets_status_def)
  then have "pollTaskStatus ?get (sets_status ''pending'') (js ''t1'') None = None"
    by (rule never_ends)
  ultimately show ?thesis
    by (intro conjI)
qed

text \<open>
  Claim C5. When the request of some run of \<open>poll\<close> fails, the session ends in that
  run: the promise is rejected with the very value the transport threw, which is not an
  \<open>Error\<close> built from a task failure; the observer is not called in that run, and no
  request follows the failed one.
\<close>

theorem transport_error_rejects:
  assumes before: "\<forall>j<n. continues api_get onUpdate taskId j"
    and fails: "api_get (status_url taskId) n = Inl e"
  shows "\<exists>st. pollTaskStatus api_get onUpdate taskId pollInterval = Some st \<and>
           promise st = Some (Rejected (Thrown e)) \<and>
           (\<forall>m. promise st \<noteq> Some (Rejected (ErrorObject m))) \<and>
           log st = concat (map (poll_events api_get onUpdate taskId (interval_of pollInterval)) [0..<n]) @
                    [GetIssued (status_url taskId), GetFailed e, RejectCalled (Thrown e)] \<and>
           fetches (log st) = Suc n \<and> requests st = Suc n \<and> updates st = n"
proof -
  have stop: "\<not> continues api_get onUpdate taskId n"
    using fails by (simp add: continues_def)
  let ?st = "final_session api_get onUpdate taskId (interval_of pollInterval) n"
  have "pollTaskStatus api_get onUpdate taskId pollInterval = Some ?st"
    using before stop by (rule session_run)
  moreover have "promise ?st = Some (Rejected (Thrown e))"
    using fails by (simp add: final_session_def poll_outcome_def)
  moreover have "log ?st = concat (map (poll_events api_get onUpdate taskId (interval_of pollInterval)) [0..<n]) @
                    [GetIssued (status_url taskId), GetFailed e, RejectCalled (Thrown e)]"
    using fails by (simp add: final_session_def poll_events_def rounds_def)
  moreover have "fetches (log ?st) = Suc n"
    by (rule final_session_fetches)
  moreover have "requests ?st = Suc n \<and> updates ?st = n"
    using fails by (simp add: final_session_def)
  ultimately show ?thesis by simp
qed

theorem transport_error_rejects_witness:
  "continues (replay [Inr (snapshot ''pending'' None)] (Inl (503::nat))) quiet (js ''t1'') 0 \<and>
   replay [Inr (snapshot ''pending'' None)] (Inl (503::nat)) (status_url (js ''t1'')) 1 = Inl 503 \<and>
   (\<exists>st. pollTaskStatus (replay [Inr (snapshot ''pending'' None)] (Inl (503::nat))) quiet (js ''t1'') None
            = Some st \<and>
          promise st = Some (Rejected (Thrown 503)) \<and> fetches (log st) = 2 \<and> updates st = 1)"
proof -
  let ?get = "replay [Inr (snapshot ''pending'' None)] (Inl (503::nat))"
  have c0: "continues ?get quiet (js ''t1'') 0"
    using js_known_statuses
    by (simp add: continues_def replay_def quiet_def snapshot_fields)
  then have h1: "\<forall>j<1. continues ?get quiet (js ''t1'') j"
    by simp
  have h2: "?get (status_url (js ''t1'')) 1 = Inl 503"
    by (simp add: replay_def)
  show ?thesis
    using c0 h2 transport_error_rejects [OF h1 h2, of None] by auto
qed

text \<open>
  Claim C10. When the observer throws in some run of \<open>poll\<close>, the session ends in that
  run: no timer is set and no request follows, and the promise is rejected with the
  thrown value, exactly as it is when the request of that run fails with the same value.
\<close>

theorem observer_exception_rejects:
  assumes before: "\<forall>j<n. continues api_get onUpdate taskId j"
    and reply: "api_get (status_url taskId) n = Inr s"
    and throws: "onUpdate n s = Inl v"
  shows "\<exists>st. pollTaskStatus api_get onUpdate taskId pollInterval = Some st \<and>
           promise st = Some (Rejected (Thrown v)) \<and>
           log st = concat (map (poll_events api_get onUpdate taskId (interval_of pollInterval)) [0..<n]) @
                    [GetIssued (status_url taskId), GetReturned s, OnUpdateCalled s,
                     OnUpdateThrew v, RejectCalled (Thrown v)] \<and>
           fetches (log st) = Suc n \<and>
           (\<forall>api_get'. (\<forall>j<n. api_get' (status_url taskId) j = api_get (status_url taskId) j) \<and>
                api_get' (status_url taskId) n = Inl v \<longrightarrow>
                map_option promise (pollTaskStatus api_get' onUpdate taskId pollInterval) =
                Some (promise st))"
proof -
  have stop: "\<not> continues api_get onUpdate taskId n"
    using reply throws by (simp add: continues_def)
  let ?st = "final_session api_get onUpdate taskId (interval_of pollInterval) n"
  have run: "pollTaskStatus api_get onUpdate taskId pollInterval = Some ?st"
    using before stop by (rule session_run)
  have out: "promise ?st = Some (Rejected (Thrown v))"
    using reply throws by (simp add: final_session_def poll_outcome_def)
  have lg: "log ?st = concat (map (poll_events api_get onUpdate taskId (interval_of pollInterval)) [0..<n]) @
                    [GetIssued (status_url taskId), GetReturned s, OnUpdateCalled s,
                     OnUpdateThrew v, RejectCalled (Thrown v)]"
    using reply throws by (simp add: final_session_def poll_events_def rounds_def)
  have fe: "fetches (log ?st) = Suc n"
    by (rule final_session_fetches)
  have same: "map_option promise (pollTaskStatus api_get' onUpdate taskId pollInterval) =
                Some (promise ?st)"
    if eq: "\<forall>j<n. api_get' (status_url taskId) j = api_get (status_url taskId) j"
      and fl: "api_get' (status_url taskId) n = Inl v" for api_get'
  proof -
    have "\<forall>j<n. continues api_get' onUpdate taskId j"
      using before eq by (simp add: continues_def)
    moreover have "\<not> continues api_get' onUpdate taskId n"
      using fl by (simp add: continues_def)
    ultimately have "pollTaskStatus api_get' onUpdate taskId pollInterval =
        Some (final_session api_get' onUpdate taskId (interval_of pollInterval) n)"
      by (rule session_run)
    moreover have "promise (final_session api_get' onUpdate taskId (interval_of pollInterval) n) =
        Some (Rejected (Thrown v))"
      using fl by (simp add: final_session_def poll_outcome_def)
    ultimately show ?thesis using out by simp
  qed
  show ?thesis
    using run out lg fe same by simp
qed

theorem observer_exception_rejects_witness:
  "continues (replay [Inr (snapshot ''pending'' None)] (Inr (snapshot ''success'' None)))
             (throws_at 1 (7::nat)) (js ''t1'') 0 \<and>
   (replay [Inr (snapshot ''pending'' None)] (Inr (snapshot ''success'' None)) :: nat transport)
     (status_url (js ''t1'')) 1 = Inr (snapshot ''success'' None) \<and>
   throws_at 1 (7::nat) 1 (snapshot ''success'' None) = Inl 7 \<and>
   (\<exists>st. pollTaskStatus (replay [Inr (snapshot ''pending'' None)] (Inr (snapshot ''success'' None)))
            (throws_at 1 (7::nat)) (js ''t1'') None = Some st \<and>
          promise st = Some (Rejected (Thrown 7)) \<and> fetches (log st) = 2 \<and>
          map_option promise
            (pollTaskStatus (replay [Inr (snapshot ''pending'' None)] (Inl 7)) (throws_at 1 (7::nat))
               (js ''t1'') None)
            = Some (promise st))"
proof -
  let ?get = "replay [Inr (snapshot ''pending'' None)] (Inr (snapshot ''success'' None)) :: nat transport"
  let ?get' = "replay [Inr (snapshot ''pending'' None)] (Inl 7) :: nat transport"
  have c0: "continues ?get (throws_at 1 7) (js ''t1'') 0"
    using js_known_statuses
    by (simp add: continues_def replay_def throws_at_def snapshot_fields)
  then have h1: "\<forall>j<1. continues ?get (throws_at 1 7) (js ''t1'') j"
    by simp
  have h2: "?get (status_url (js ''t1'')) 1 = Inr (snapshot ''success'' None)"
    by (simp add: replay_def)
  have h3: "throws_at 1 (7::nat) 1 (snapshot ''success'' None) = Inl 7"
    by (simp add: throws_at_def)
  have h4: "(\<forall>j<1. ?get' (status_url (js ''t1'')) j = ?get (status_url (js ''t1'')) j) \<and>
       ?get' (status_url (js ''t1'')) 1 = Inl 7"
    by (simp add: replay_def)
  from observer_exception_rejects [OF h1 h2 h3, of None]
  obtain st where st: "pollTaskStatus ?get (throws_at 1 7) (js ''t1'') None = Some st"
      "promise st = Some (Rejected (Thrown 7))" "fetches (log st) = Suc 1"
    and same: "\<forall>api_get'. (\<forall>j<1. api_get' (status_url (js ''t1'')) j = ?get (status_url (js ''t1'')) j) \<and>
                api_get' (status_url (js ''t1'')) 1 = Inl 7 \<longrightarrow>
                map_option promise (pollTaskStatus api_get' (throws_at 1 7) (js ''t1'') None) =
                Some (promise st)"
    by blast
  from same h4 have "map_option promise (pollTaskStatus ?get' (throws_at 1 7) (js ''t1'') None) =
                Some (promise st)"
    by blast
  then show ?thesis
    using st c0 h2 h3 by (intro conjI exI [of _ st]) simp_all
qed


text \<open>
  Claim C2, as amended: in a run of \<open>poll\<close> in which the observer returns and the
  snapshot, as the observer leaves it, has the status \<open>success\<close>, the promise is
  fulfilled with that very snapshot, as the observer left it, and the call of \<open>resolve\<close>
  is the last event of the session: no request follows.
\<close>

theorem success_resolves:
  assumes before: "\<forall>j<n. continues api_get onUpdate taskId j"
    and reply: "api_get (status_url taskId) n = Inr s"
    and returns: "onUpdate n s = Inr s'"
    and success: "status s' = js ''success''"
  shows "\<exists>st. pollTaskStatus api_get onUpdate taskId pollInterval = Some st \<and>
           promise st = Some (Fulfilled s') \<and>
           log st = concat (map (poll_events api_get onUpdate taskId (interval_of pollInterval)) [0..<n]) @
                    [GetIssued (status_url taskId), GetReturned s, OnUpdateCalled s,
                     OnUpdateReturned s', ResolveCalled s'] \<and>
           fetches (log st) = Suc n \<and> requests st = Suc n"
proof -
  have stop: "\<not> continues api_get onUpdate taskId n"
    using reply returns success by (simp add: continues_def)
  let ?st = "final_session api_get onUpdate taskId (interval_of pollInterval) n"
  have "pollTaskStatus api_get onUpdate taskId pollInterval = Some ?st"
    using before stop by (rule session_run)
  moreover have "promise ?st = Some (Fulfilled s')"
    using reply success returns by (simp add: final_session_def poll_outcome_def)
  moreover have "log ?st = concat (map (poll_events api_get onUpdate taskId (interval_of pollInterval)) [0..<n]) @
                    [GetIssued (status_url taskId), GetReturned s, OnUpdateCalled s,
                     OnUpdateReturned s', ResolveCalled s']"
    using reply success returns by (simp add: final_session_def poll_events_def rounds_def)
  moreover have "fetches (log ?st) = Suc n"
    by (rule final_session_fetches)
  moreover have "requests ?st = Suc n"
    by (simp add: final_session_def)
  ultimately show ?thesis by simp
qed

theorem success_resolves_witness:
  "continues (replay [Inr (snapshot ''processing'' None)] (Inr (snapshot ''success'' None)))
            (quiet :: nat observer) (js ''t1'') 0 \<and>
   (\<exists>st. pollTaskStatus (replay [Inr (snapshot ''processing'' None)] (Inr (snapshot ''success'' None)))
            (quiet :: nat observer) (js ''t1'') (Some 500) = Some st \<and>
          promise st = Some (Fulfilled (snapshot ''success'' None)) \<and> fetches (log st) = 2)"
proof -
  let ?get = "replay [Inr (snapshot ''processing'' None)] (Inr (snapshot ''success'' None)) :: nat transport"
  have c0: "continues ?get quiet (js ''t1'') 0"
    using js_known_statuses
    by (simp add: continues_def replay_def quiet_def snapshot_fields)
  then have h1: "\<forall>j<1. continues ?get quiet (js ''t1'') j"
    by simp
  have h2: "?get (status_url (js ''t1'')) 1 = Inr (snapshot ''success'' None)"
    by (simp add: replay_def)
  have h3: "(quiet :: nat observer) 1 (snapshot ''success'' None) = Inr (snapshot ''success'' None)"
    by (simp add: quiet_def)
  have h4: "status (snapshot ''success'' None) = js ''success''"
    by (simp add: snapshot_fields)
  show ?thesis
    using c0 success_resolves [OF h1 h2 h3 h4, of "Some 500"] by auto
qed

text \<open>
  As stated, for every run with a \<open>success\<close> reply, the claim fails. The observer is
  called before the status is looked at, inside the same \<open>try\<close>: when it throws, the
  promise is rejected with the thrown value; and when it writes \<open>pending\<close> into the
  snapshot and returns, the run sets the timer and a second request follows (here it
  fails, which ends the session).
\<close>

theorem success_resolves_counterexample:
  "(replay [] (Inr (snapshot ''success'' None)) :: nat transport) (status_url (js ''t1'')) 0 =
     Inr (snapshot ''success'' None) \<and>
   status (snapshot ''success'' None) = js ''success'' \<and>
   map_option promise
     (pollTaskStatus (replay [] (Inr (snapshot ''success'' None))) (throws_at 0 (7::nat)) (js ''t1'') None)
     = Some (Some (Rejected (Thrown 7))) \<and>
   (replay [Inr (snapshot ''success'' None)] (Inl 9) :: nat transport) (status_url (js ''t1'')) 0 =
     Inr (snapshot ''success'' None) \<and>
   map_option promise
     (pollTaskStatus (replay [Inr (snapshot ''success'' None)] (Inl (9::nat)))
        (sets_status_at 0 ''pending'') (js ''t1'') None)
     = Some (Some (Rejected (Thrown 9))) \<and>
   map_option requests
     (pollTaskStatus (replay [Inr (snapshot ''success'' None)] (Inl (9::nat)))
        (sets_status_at 0 ''pending'') (js ''t1'') None)
     = Some 2"
proof -
  let ?get = "replay [] (Inr (snapshot ''success'' None)) :: nat transport"
  let ?get2 = "replay [Inr (snapshot ''success'' None)] (Inl 9) :: nat transport"
  have r: "?get (status_url (js ''t1'')) 0 = Inr (snapshot ''success'' None)"
    by (simp add: replay_def)
  have "\<not> continues ?get (throws_at 0 7) (js ''t1'') 0"
    by (simp add: continues_def r throws_at_def)
  then have "pollTaskStatus ?get (throws_at 0 7) (js ''t1'') None =
     Some (final_session ?get (throws_at 0 7) (js ''t1'') (interval_of None) 0)"
    by (rule run_once)
  then have 1: "map_option promise (pollTaskStatus ?get (throws_at 0 7) (js ''t1'') None) =
     Some (Some (Rejected (Thrown 7)))"
    by (simp add: final_session_def poll_outcome_def r throws_at_def)
  have 2: "status (snapshot ''success'' None) = js ''success''"
    by (simp add: snapshot_fields)
  have r2: "?get2 (status_url (js ''t1'')) 0 = Inr (snapshot ''success'' None)"
    "?get2 (status_url (js ''t1'')) (Suc 0) = Inl 9"
    by (simp_all add: replay_def)
  have "continues ?get2 (sets_status_at 0 ''pending'') (js ''t1'') 0"
    using js_known_statuses by (simp add: continues_def r2 sets_status_at_def)
  then have "\<forall>j<Suc 0. continues ?get2 (sets_status_at 0 ''pending'') (js ''t1'') j"
    by simp
  moreover have "\<not> continues ?get2 (sets_status_at 0 ''pending'') (js ''t1'') (Suc 0)"
    by (simp add: continues_def r2)
  ultimately have "pollTaskStatus ?get2 (sets_status_at 0 ''pending'') (js ''t1'') None =
     Some (final_session ?get2 (sets_status_at 0 ''pending'') (js ''t1'') (interval_of None) (Suc 0))"
    by (rule session_run)
  then have 3: "map_option promise
       (pollTaskStatus ?get2 (sets_status_at 0 ''pending'') (js ''t1'') None) =
       Some (Some (Rejected (Thrown 9)))"
    and 4: "map_option requests
       (pollTaskStatus ?get2 (sets_status_at 0 ''pending'') (js ''t1'') None) = Some 2"
    by (simp_all add: final_session_def poll_outcome_def r2)
  show ?thesis
    using r 1 2 r2(1) 3 4 by (intro conjI)
qed

text \<open>
  Claim C3, as amended: in a run of \<open>poll\<close> in which the observer returns and the
  snapshot, as the observer leaves it, has the status \<open>failure\<close>, the promise is rejected
  with an \<open>Error\<close> whose message is the \<open>error_message\<close> of the snapshot as the observer
  leaves it when that is present and not the empty string, and \<open>Task failed\<close> when it is
  absent or the empty string; the call of \<open>reject\<close> is the last event of the session. For
  the replies pending, failure with \<open>model timeout\<close> and an observer that leaves the
  snapshots alone the message is \<open>model timeout\<close> (the witness).
\<close>

theorem failure_rejects:
  assumes before: "\<forall>j<n. continues api_get onUpdate taskId j"
    and reply: "api_get (status_url taskId) n = Inr s"
    and returns: "onUpdate n s = Inr s'"
    and failure: "status s' = js ''failure''"
  shows "\<exists>st msg. pollTaskStatus api_get onUpdate taskId pollInterval = Some st \<and>
           msg = (case error_message s' of
                    None \<Rightarrow> js ''Task failed''
                  | Some m \<Rightarrow> if m = [] then js ''Task failed'' else m) \<and>
           promise st = Some (Rejected (ErrorObject msg)) \<and>
           log st = concat (map (poll_events api_get onUpdate taskId (interval_of pollInterval)) [0..<n]) @
                    [GetIssued (status_url taskId), GetReturned s, OnUpdateCalled s,
                     OnUpdateReturned s', RejectCalled (ErrorObject msg)] \<and>
           fetches (log st) = Suc n \<and> requests st = Suc n"
proof -
  have stop: "\<not> continues api_get onUpdate taskId n"
    using reply returns failure by (simp add: continues_def)
  let ?st = "final_session api_get onUpdate taskId (interval_of pollInterval) n"
  let ?msg = "case error_message s' of
                None \<Rightarrow> js ''Task failed''
              | Some m \<Rightarrow> if m = [] then js ''Task failed'' else m"
  have "pollTaskStatus api_get onUpdate taskId pollInterval = Some ?st"
    using before stop by (rule session_run)
  moreover have "promise ?st = Some (Rejected (ErrorObject ?msg))"
    using reply failure returns js_success_failure
    by (simp add: final_session_def poll_outcome_def or_else_def split: option.splits)
  moreover have "log ?st = concat (map (poll_events api_get onUpdate taskId (interval_of pollInterval)) [0..<n]) @
                    [GetIssued (status_url taskId), GetReturned s, OnUpdateCalled s,
                     OnUpdateReturned s', RejectCalled (ErrorObject ?msg)]"
    using reply failure returns js_success_failure
    by (simp add: final_session_def poll_events_def rounds_def or_else_def split: option.splits)
  moreover have "fetches (log ?st) = Suc n"
    by (rule final_session_fetches)
  moreover have "requests ?st = Suc n"
    by (simp add: final_session_def)
  ultimately show ?thesis by simp
qed

theorem failure_rejects_witness:
  "continues (replay [Inr (snapshot ''pending'' None)]
                (Inr (snapshot ''failure'' (Some (js ''model timeout'')))))
      (quiet :: nat observer) (js ''t1'') 0 \<and>
   (\<exists>st. pollTaskStatus (replay [Inr (snapshot ''pending'' None)]
                (Inr (snapshot ''failure'' (Some (js ''model timeout'')))))
            (quiet :: nat observer) (js ''t1'') None = Some st \<and>
          promise st = Some (Rejected (ErrorObject (js ''model timeout''))) \<and> fetches (log st) = 2)"
proof -
  let ?get = "replay [Inr (snapshot ''pending'' None)]
                (Inr (snapshot ''failure'' (Some (js ''model timeout'')))) :: nat transport"
  have c0: "continues ?get quiet (js ''t1'') 0"
    using js_known_statuses
    by (simp add: continues_def replay_def quiet_def snapshot_fields)
  then have h1: "\<forall>j<1. continues ?get quiet (js ''t1'') j"
    by simp
  have h2: "?get (status_url (js ''t1'')) 1 = Inr (snapshot ''failure'' (Some (js ''model timeout'')))"
    by (simp add: replay_def)
  have h3: "(quiet :: nat observer) 1 (snapshot ''failure'' (Some (js ''model timeout''))) =
      Inr (snapshot ''failure'' (Some (js ''model timeout'')))"
    by (simp add: quiet_def)
  have h4: "status (snapshot ''failure'' (Some (js ''model timeout''))) = js ''failure''"
    by (simp add: snapshot_fields)
  have m: "error_message (snapshot ''failure'' (Some (js ''model timeout''))) = Some (js ''model timeout'')"
    by (simp add: snapshot_fields)
  have ne: "js ''model timeout'' \<noteq> []"
    by (simp add: js_def)
  show ?thesis
    using c0 failure_rejects [OF h1 h2 h3 h4, of None] m ne by auto
qed

text \<open>
  As stated the claim fails in three ways. The message is chosen by \<open>||\<close>, so an
  \<open>error_message\<close> that is present and empty gives \<open>Task failed\<close>, not the empty
  message. An observer that throws on the \<open>failure\<close> snapshot makes the promise reject
  with the thrown value, whatever the snapshot's message. And the message is read from
  the snapshot object after the observer has had it: an observer that writes another
  message into it and returns changes the message of the rejection.
\<close>

theorem failure_rejects_counterexample:
  "status (snapshot ''failure'' (Some [])) = js ''failure'' \<and>
   error_message (snapshot ''failure'' (Some [])) = Some [] \<and>
   map_option promise
     (pollTaskStatus (replay [] (Inr (snapshot ''failure'' (Some [])))) (quiet :: nat observer)
        (js ''t1'') None)
     = Some (Some (Rejected (ErrorObject (js ''Task failed'')))) \<and>
   js ''Task failed'' \<noteq> [] \<and>
   map_option promise
     (pollTaskStatus (replay [] (Inr (snapshot ''failure'' (Some (js ''model timeout'')))))
        (throws_at 0 (7::nat)) (js ''t1'') None)
     = Some (Some (Rejected (Thrown 7))) \<and>
   map_option promise
     (pollTaskStatus (replay [] (Inr (snapshot ''failure'' (Some (js ''model timeout'')))))
        (sets_message ''changed'' :: nat observer) (js ''t1'') None)
     = Some (Some (Rejected (ErrorObject (js ''changed'')))) \<and>
   js ''changed'' \<noteq> js ''model timeout''"
proof -
  let ?get = "replay [] (Inr (snapshot ''failure'' (Some []))) :: nat transport"
  let ?get2 = "replay [] (Inr (snapshot ''failure'' (Some (js ''model timeout'')))) :: nat transport"
  have st: "status (snapshot ''failure'' (Some [])) = js ''failure''"
    and em: "error_message (snapshot ''failure'' (Some [])) = Some []"
    by (simp_all add: snapshot_fields)
  have r: "?get (status_url (js ''t1'')) 0 = Inr (snapshot ''failure'' (Some []))"
    by (simp add: replay_def)
  have "\<not> continues ?get quiet (js ''t1'') 0"
    by (simp add: continues_def r st quiet_def)
  then have "pollTaskStatus ?get quiet (js ''t1'') None =
     Some (final_session ?get quiet (js ''t1'') (interval_of None) 0)"
    by (rule run_once)
  then have 1: "map_option promise (pollTaskStatus ?get (quiet :: nat observer) (js ''t1'') None) =
     Some (Some (Rejected (ErrorObject (js ''Task failed''))))"
    using js_success_failure
    by (simp add: final_session_def poll_outcome_def r st em quiet_def or_else_def)
  have r2: "?get2 (status_url (js ''t1'')) 0 = Inr (snapshot ''failure'' (Some (js ''model timeout'')))"
    by (simp add: replay_def)
  have "\<not> continues ?get2 (throws_at 0 7) (js ''t1'') 0"
    by (simp add: continues_def r2 throws_at_def)
  then have "pollTaskStatus ?get2 (throws_at 0 7) (js ''t1'') None =
     Some (final_session ?get2 (throws_at 0 7) (js ''t1'') (interval_of None) 0)"
    by (rule run_once)
  then have 2: "map_option promise (pollTaskStatus ?get2 (throws_at 0 7) (js ''t1'') None) =
     Some (Some (Rejected (Thrown 7)))"
    by (simp add: final_session_def poll_outcome_def r2 throws_at_def)
  have 3: "js ''Task failed'' \<noteq> []"
    by (simp add: js_def)
  have ne: "js ''changed'' \<noteq> []"
    by (simp add: js_def)
  have "\<not> continues ?get2 (sets_message ''changed'') (js ''t1'') 0"
    by (simp add: continues_def r2 sets_message_def snapshot_fields)
  then have "pollTaskStatus ?get2 (sets_message ''changed'') (js ''t1'') None =
     Some (final_session ?get2 (sets_message ''changed'') (js ''t1'') (interval_of None) 0)"
    by (rule run_once)
  then have 4: "map_option promise
      (pollTaskStatus ?get2 (sets_message ''changed'' :: nat observer) (js ''t1'') None) =
     Some (Some (Rejected (ErrorObject (js ''changed''))))"
    using js_success_failure ne
    by (simp add: final_session_def poll_outcome_def r2 sets_message_def snapshot_fields
        or_else_def)
  have 5: "js ''changed'' \<noteq> js ''model timeout''"
    by (simp add: js_def)
  show ?thesis
    using st em 1 3 2 4 5 by (intro conjI)
qed

text \<open>
  Claim C4, as amended: in a run of \<open>poll\<close> in which the observer returns and the
  snapshot, as the observer leaves it, has a status other than \<open>success\<close> and \<open>failure\<close>
  (\<open>pending\<close>, \<open>processing\<close>, or a string such as \<open>queued\<close>), the run ends by setting the
  timer with the interval, 2000 when the caller gave none; the promise stays pending, one
  timer is set and no request is in flight, and when the timer has expired the next thing
  the session does is to send the next request.
\<close>

theorem other_status_reschedules:
  assumes before: "\<forall>j<n. continues api_get onUpdate taskId j"
    and reply: "api_get (status_url taskId) n = Inr s"
    and returns: "onUpdate n s = Inr s'"
    and other: "status s' \<noteq> js ''success''" "status s' \<noteq> js ''failure''"
  shows "\<exists>st. snd (observe n api_get onUpdate taskId pollInterval) = True \<and>
           poll api_get onUpdate taskId (interval_of pollInterval)
             (fst (observe n api_get onUpdate taskId pollInterval)) = (st, True) \<and>
           promise st = None \<and> timers st = 1 \<and> in_flight st = [] \<and>
           log st = concat (map (poll_events api_get onUpdate taskId (interval_of pollInterval)) [0..<n]) @
                    [GetIssued (status_url taskId), GetReturned s, OnUpdateCalled s,
                     OnUpdateReturned s',
                     SetTimeoutCalled (case pollInterval of None \<Rightarrow> 2000 | Some i \<Rightarrow> i)] \<and>
           (\<exists>rest. log (fst (observe (Suc (Suc n)) api_get onUpdate taskId pollInterval)) =
                    log st @ GetIssued (status_url taskId) # rest)"
proof -
  let ?iv = "interval_of pollInterval"
  let ?st = "\<lparr>promise = None, log = rounds api_get onUpdate taskId ?iv (Suc n),
       requests = Suc n, updates = Suc n, in_flight = [], timers = Suc 0\<rparr> :: 'a session"
  have cn: "continues api_get onUpdate taskId n"
    using reply returns other by (simp add: continues_def)
  have obs: "observe n api_get onUpdate taskId pollInterval =
      (idle_session api_get onUpdate taskId ?iv n, True)"
    using before by (rule observe_continues)
  have p: "poll api_get onUpdate taskId ?iv (idle_session api_get onUpdate taskId ?iv n) =
      (?st, True)"
    using cn by (rule poll_continues)
  have ev: "poll_events api_get onUpdate taskId ?iv n =
      [GetIssued (status_url taskId), GetReturned s, OnUpdateCalled s, OnUpdateReturned s',
       SetTimeoutCalled (case pollInterval of None \<Rightarrow> 2000 | Some i \<Rightarrow> i)]"
    using reply returns other by (simp add: poll_events_def interval_of_def)
  have lg: "log ?st = concat (map (poll_events api_get onUpdate taskId ?iv) [0..<n]) @
      [GetIssued (status_url taskId), GetReturned s, OnUpdateCalled s, OnUpdateReturned s',
       SetTimeoutCalled (case pollInterval of None \<Rightarrow> 2000 | Some i \<Rightarrow> i)]"
    using ev by (simp add: rounds_Suc) (simp add: rounds_def)
  from cn before have all: "\<forall>j<Suc n. continues api_get onUpdate taskId j"
    by (simp add: less_Suc_eq)
  have "poll_upto (Suc n) api_get onUpdate taskId ?iv new_session =
      (idle_session api_get onUpdate taskId ?iv (Suc n), True)"
    using observe_continues [OF all, of pollInterval] by (simp add: observe_def)
  then have "poll_upto (Suc (Suc n)) api_get onUpdate taskId ?iv new_session =
      (case poll api_get onUpdate taskId ?iv (idle_session api_get onUpdate taskId ?iv (Suc n)) of
        (st'', again) \<Rightarrow> if again then (timer_expires st'', True) else (st'', False))"
    by (rule poll_upto_Suc_end)
  then have "log (fst (observe (Suc (Suc n)) api_get onUpdate taskId pollInterval)) =
      log ?st @ poll_events api_get onUpdate taskId ?iv (Suc n)"
    by (simp add: observe_def poll_idle rounds_Suc timer_expires_def)
  then have nxt: "\<exists>rest. log (fst (observe (Suc (Suc n)) api_get onUpdate taskId pollInterval)) =
                    log ?st @ GetIssued (status_url taskId) # rest"
    by (simp add: poll_events_def)
  show ?thesis
    using obs p lg nxt by (intro exI [of _ ?st] conjI) simp_all
qed

theorem other_status_reschedules_witness:
  "(replay [] (Inr (snapshot ''queued'' None)) :: nat transport) (status_url (js ''t1'')) 0 =
     Inr (snapshot ''queued'' None) \<and>
   (quiet :: nat observer) 0 (snapshot ''queued'' None) = Inr (snapshot ''queued'' None) \<and>
   status (snapshot ''queued'' None) \<noteq> js ''success'' \<and>
   status (snapshot ''queued'' None) \<noteq> js ''failure'' \<and>
   status (snapshot ''pending'' None) \<noteq> js ''success'' \<and>
   status (snapshot ''pending'' None) \<noteq> js ''failure'' \<and>
   status (snapshot ''processing'' None) \<noteq> js ''success'' \<and>
   status (snapshot ''processing'' None) \<noteq> js ''failure'' \<and>
   (\<exists>st. poll (replay [] (Inr (snapshot ''queued'' None))) (quiet :: nat observer) (js ''t1'') 2000
            new_session = (st, True) \<and>
          promise st = None \<and> timers st = 1 \<and>
          log st = [GetIssued (status_url (js ''t1'')), GetReturned (snapshot ''queued'' None),
                    OnUpdateCalled (snapshot ''queued'' None),
                    OnUpdateReturned (snapshot ''queued'' None), SetTimeoutCalled 2000]) \<and>
   (\<exists>st. poll (replay [] (Inr (snapshot ''queued'' None))) (quiet :: nat observer) (js ''t1'') 250
            new_session = (st, True) \<and>
          promise st = None \<and> timers st = 1 \<and>
          log st = [GetIssued (status_url (js ''t1'')), GetReturned (snapshot ''queued'' None),
                    OnUpdateCalled (snapshot ''queued'' None),
                    OnUpdateReturned (snapshot ''queued'' None), SetTimeoutCalled 250])"
proof -
  let ?get = "replay [] (Inr (snapshot ''queued'' None)) :: nat transport"
  have h1: "\<forall>j<0. continues ?get (quiet :: nat observer) (js ''t1'') j"
    by simp
  have h2: "?get (status_url (js ''t1'')) 0 = Inr (snapshot ''queued'' None)"
    by (simp add: replay_def)
  have h3: "(quiet :: nat observer) 0 (snapshot ''queued'' None) = Inr (snapshot ''queued'' None)"
    by (simp add: quiet_def)
  have h4: "status (snapshot ''queued'' None) \<noteq> js ''success''"
    and h5: "status (snapshot ''queued'' None) \<noteq> js ''failure''"
    using js_known_statuses by (simp_all add: snapshot_fields)
  have others: "status (snapshot ''pending'' None) \<noteq> js ''success''"
    "status (snapshot ''pending'' None) \<noteq> js ''failure''"
    "status (snapshot ''processing'' None) \<noteq> js ''success''"
    "status (snapshot ''processing'' None) \<noteq> js ''failure''"
    using js_known_statuses by (simp_all add: snapshot_fields)
  have o: "fst (observe 0 ?get (quiet :: nat observer) (js ''t1'') pollInterval) = new_session"
    for pollInterval
    by (simp add: observe_def)
  have a: "\<exists>st. poll ?get (quiet :: nat observer) (js ''t1'') 2000 new_session = (st, True) \<and>
          promise st = None \<and> timers st = 1 \<and>
          log st = [GetIssued (status_url (js ''t1'')), GetReturned (snapshot ''queued'' None),
                    OnUpdateCalled (snapshot ''queued'' None),
                    OnUpdateReturned (snapshot ''queued'' None), SetTimeoutCalled 2000]"
    using other_status_reschedules [OF h1 h2 h3 h4 h5, of None]
    by (auto simp: o interval_of_def)
  have b: "\<exists>st. poll ?get (quiet :: nat observer) (js ''t1'') 250 new_session = (st, True) \<and>
          promise st = None \<and> timers st = 1 \<and>
          log st = [GetIssued (status_url (js ''t1'')), GetReturned (snapshot ''queued'' None),
                    OnUpdateCalled (snapshot ''queued'' None),
                    OnUpdateReturned (snapshot ''queued'' None), SetTimeoutCalled 250]"
    using other_status_reschedules [OF h1 h2 h3 h4 h5, of "Some 250"]
    by (auto simp: o interval_of_def)
  show ?thesis
    using h2 h3 h4 h5 others a b by (intro conjI)
qed

text \<open>
  As stated, for every run with such a status, the claim fails. When the observer throws
  on a \<open>pending\<close> snapshot no timer is set and the promise is rejected; and when it
  writes \<open>success\<close> into the \<open>pending\<close> snapshot and returns, the promise is fulfilled
  with the snapshot as written, no timer is set and no request follows.
\<close>

theorem other_status_reschedules_counterexample:
  "status (snapshot ''pending'' None) \<noteq> js ''success'' \<and>
   status (snapshot ''pending'' None) \<noteq> js ''failure'' \<and>
   pollTaskStatus (replay [] (Inr (snapshot ''pending'' None))) (throws_at 0 (7::nat)) (js ''t1'') None =
     Some \<lparr>promise = Some (Rejected (Thrown 7)),
           log = [GetIssued (status_url (js ''t1'')), GetReturned (snapshot ''pending'' None),
                  OnUpdateCalled (snapshot ''pending'' None), OnUpdateThrew 7,
                  RejectCalled (Thrown 7)],
           requests = 1, updates = 1, in_flight = [], timers = 0\<rparr> \<and>
   pollTaskStatus (replay [] (Inr (snapshot ''pending'' None)) :: nat transport)
       (sets_status ''success'') (js ''t1'') None =
     Some \<lparr>promise = Some (Fulfilled (snapshot ''success'' None)),
           log = [GetIssued (status_url (js ''t1'')), GetReturned (snapshot ''pending'' None),
                  OnUpdateCalled (snapshot ''pending'' None),
                  OnUpdateReturned (snapshot ''success'' None),
                  ResolveCalled (snapshot ''success'' None)],
           requests = 1, updates = 1, in_flight = [], timers = 0\<rparr>"
proof -
  let ?get = "replay [] (Inr (snapshot ''pending'' None)) :: nat transport"
  have r: "?get (status_url (js ''t1'')) 0 = Inr (snapshot ''pending'' None)"
    by (simp add: replay_def)
  have "\<not> continues ?get (throws_at 0 7) (js ''t1'') 0"
    by (simp add: continues_def r throws_at_def)
  then have "pollTaskStatus ?get (throws_at 0 7) (js ''t1'') None =
     Some (final_session ?get (throws_at 0 7) (js ''t1'') (interval_of None) 0)"
    by (rule run_once)
  then have 1: "pollTaskStatus ?get (throws_at 0 7) (js ''t1'') None =
     Some \<lparr>promise = Some (Rejected (Thrown 7)),
           log = [GetIssued (status_url (js ''t1'')), GetReturned (snapshot ''pending'' None),
                  OnUpdateCalled (snapshot ''pending'' None), OnUpdateThrew 7,
                  RejectCalled (Thrown 7)],
           requests = 1, updates = 1, in_flight = [], timers = 0\<rparr>"
    by (simp add: final_session_def poll_outcome_def poll_events_def rounds_0 r throws_at_def)
  have w: "(snapshot ''pending'' None)\<lparr>status := js ''success''\<rparr> = snapshot ''success'' None"
    by (simp add: snapshot_def)
  have "\<not> continues ?get (sets_status ''success'') (js ''t1'') 0"
    by (simp add: continues_def r sets_status_def)
  then have "pollTaskStatus ?get (sets_status ''success'') (js ''t1'') None =
     Some (final_session ?get (sets_status ''success'') (js ''t1'') (interval_of None) 0)"
    by (rule run_once)
  then have 2: "pollTaskStatus ?get (sets_status ''success'') (js ''t1'') None =
     Some \<lparr>promise = Some (Fulfilled (snapshot ''success'' None)),
           log = [GetIssued (status_url (js ''t1'')), GetReturned (snapshot ''pending'' None),
                  OnUpdateCalled (snapshot ''pending'' None),
                  OnUpdateReturned (snapshot ''success'' None),
                  ResolveCalled (snapshot ''success'' None)],
           requests = 1, updates = 1, in_flight = [], timers = 0\<rparr>"
    by (simp add: final_session_def poll_outcome_def poll_events_def rounds_0 r sets_status_def
        w snapshot_fields)
  have "status (snapshot ''pending'' None) \<noteq> js ''success''"
    "status (snapshot ''pending'' None) \<noteq> js ''failure''"
    using js_known_statuses by (simp_all add: snapshot_fields)
  with 1 2 show ?thesis by (intro conjI)
qed


text \<open>
  Claim C6, as amended: when the first four replies carry the statuses pending,
  processing, processing, success and the observer returns from each of its four
  invocations leaving the status of the snapshot as it was fetched, the session sends
  exactly four requests, calls the observer exactly four times, with the four snapshots
  in the order they were received, and fulfils the promise with the fourth snapshot as
  the last observer invocation left it.
\<close>

theorem four_status_sequence:
  assumes r0: "api_get (status_url taskId) 0 = Inr s0" and p0: "status s0 = js ''pending''"
    and r1: "api_get (status_url taskId) 1 = Inr s1" and p1: "status s1 = js ''processing''"
    and r2: "api_get (status_url taskId) 2 = Inr s2" and p2: "status s2 = js ''processing''"
    and r3: "api_get (status_url taskId) 3 = Inr s3" and p3: "status s3 = js ''success''"
    and u0: "onUpdate 0 s0 = Inr s0'" and q0: "status s0' = status s0"
    and u1: "onUpdate 1 s1 = Inr s1'" and q1: "status s1' = status s1"
    and u2: "onUpdate 2 s2 = Inr s2'" and q2: "status s2' = status s2"
    and u3: "onUpdate 3 s3 = Inr s3'" and q3: "status s3' = status s3"
  shows "\<exists>st. pollTaskStatus api_get onUpdate taskId pollInterval = Some st \<and>
           fetches (log st) = 4 \<and> requests st = 4 \<and>
           updates st = 4 \<and> observed (log st) = [s0, s1, s2, s3] \<and>
           received (log st) = [s0, s1, s2, s3] \<and>
           promise st = Some (Fulfilled s3') \<and>
           log st =
             [GetIssued (status_url taskId), GetReturned s0, OnUpdateCalled s0, OnUpdateReturned s0',
              SetTimeoutCalled (interval_of pollInterval),
              GetIssued (status_url taskId), GetReturned s1, OnUpdateCalled s1, OnUpdateReturned s1',
              SetTimeoutCalled (interval_of pollInterval),
              GetIssued (status_url taskId), GetReturned s2, OnUpdateCalled s2, OnUpdateReturned s2',
              SetTimeoutCalled (interval_of pollInterval),
              GetIssued (status_url taskId), GetReturned s3, OnUpdateCalled s3, OnUpdateReturned s3',
              ResolveCalled s3']"
proof -
  let ?iv = "interval_of pollInterval"
  let ?u = "status_url taskId"
  have c0: "continues api_get onUpdate taskId 0"
    using r0 u0 p0 q0 js_known_statuses by (simp add: continues_def)
  have c1: "continues api_get onUpdate taskId (Suc 0)"
    using r1 u1 p1 q1 js_known_statuses by (simp add: continues_def)
  have c2: "continues api_get onUpdate taskId 2"
    using r2 u2 p2 q2 js_known_statuses by (simp add: continues_def)
  have before: "\<forall>j<3. continues api_get onUpdate taskId j"
    using c0 c1 c2 by (simp add: all_less_3)
  have stop: "\<not> continues api_get onUpdate taskId 3"
    using r3 u3 p3 q3 by (simp add: continues_def)
  let ?st = "final_session api_get onUpdate taskId ?iv 3"
  have run: "pollTaskStatus api_get onUpdate taskId pollInterval = Some ?st"
    using before stop by (rule session_run)
  have e0: "poll_events api_get onUpdate taskId ?iv 0 =
      [GetIssued ?u, GetReturned s0, OnUpdateCalled s0, OnUpdateReturned s0', SetTimeoutCalled ?iv]"
    using r0 u0 p0 q0 js_known_statuses by (simp add: poll_events_def)
  have e1: "poll_events api_get onUpdate taskId ?iv (Suc 0) =
      [GetIssued ?u, GetReturned s1, OnUpdateCalled s1, OnUpdateReturned s1', SetTimeoutCalled ?iv]"
    using r1 u1 p1 q1 js_known_statuses by (simp add: poll_events_def)
  have e2: "poll_events api_get onUpdate taskId ?iv 2 =
      [GetIssued ?u, GetReturned s2, OnUpdateCalled s2, OnUpdateReturned s2', SetTimeoutCalled ?iv]"
    using r2 u2 p2 q2 js_known_statuses by (simp add: poll_events_def)
  have e3: "poll_events api_get onUpdate taskId ?iv 3 =
      [GetIssued ?u, GetReturned s3, OnUpdateCalled s3, OnUpdateReturned s3', ResolveCalled s3']"
    using r3 u3 p3 q3 by (simp add: poll_events_def)
  have lg: "log ?st =
      [GetIssued ?u, GetReturned s0, OnUpdateCalled s0, OnUpdateReturned s0', SetTimeoutCalled ?iv,
       GetIssued ?u, GetReturned s1, OnUpdateCalled s1, OnUpdateReturned s1', SetTimeoutCalled ?iv,
       GetIssued ?u, GetReturned s2, OnUpdateCalled s2, OnUpdateReturned s2', SetTimeoutCalled ?iv,
       GetIssued ?u, GetReturned s3, OnUpdateCalled s3, OnUpdateReturned s3', ResolveCalled s3']"
    by (simp add: final_session_def rounds_3 e0 e1 e2 e3)
  have "fetches (log ?st) = 4"
    unfolding lg by (simp add: fetches_def)
  moreover have "observed (log ?st) = [s0, s1, s2, s3]"
    unfolding lg by simp
  moreover have "received (log ?st) = [s0, s1, s2, s3]"
    unfolding lg by simp
  moreover have "requests ?st = 4 \<and> updates ?st = 4"
    using r3 by (simp add: final_session_def)
  moreover have "promise ?st = Some (Fulfilled s3')"
    using r3 u3 p3 q3 by (simp add: final_session_def poll_outcome_def)
  ultimately show ?thesis
    using run lg by simp
qed

theorem four_status_sequence_witness:
  "four_statuses (status_url (js ''t1'')) 0 = Inr (snapshot ''pending'' None) \<and>
   four_statuses (status_url (js ''t1'')) 1 = Inr (snapshot ''processing'' None) \<and>
   four_statuses (status_url (js ''t1'')) 2 = Inr (snapshot ''processing'' None) \<and>
   four_statuses (status_url (js ''t1'')) 3 = Inr (snapshot ''success'' None) \<and>
   (\<exists>st. pollTaskStatus four_statuses quiet (js ''t1'') None = Some st \<and>
          fetches (log st) = 4 \<and> updates st = 4 \<and>
          observed (log st) =
            [snapshot ''pending'' None, snapshot ''processing'' None,
             snapshot ''processing'' None, snapshot ''success'' None] \<and>
          promise st = Some (Fulfilled (snapshot ''success'' None)))"
proof -
  have "\<exists>st. pollTaskStatus four_statuses quiet (js ''t1'') None = Some st \<and>
           fetches (log st) = 4 \<and> requests st = 4 \<and>
           updates st = 4 \<and>
           observed (log st) = [snapshot ''pending'' None, snapshot ''processing'' None,
             snapshot ''processing'' None, snapshot ''success'' None] \<and>
           received (log st) = [snapshot ''pending'' None, snapshot ''processing'' None,
             snapshot ''processing'' None, snapshot ''success'' None] \<and>
           promise st = Some (Fulfilled (snapshot ''success'' None)) \<and>
           log st =
             [GetIssued (status_url (js ''t1'')), GetReturned (snapshot ''pending'' None),
              OnUpdateCalled (snapshot ''pending'' None), OnUpdateReturned (snapshot ''pending'' None),
              SetTimeoutCalled (interval_of None),
              GetIssued (status_url (js ''t1'')), GetReturned (snapshot ''processing'' None),
              OnUpdateCalled (snapshot ''processing'' None),
              OnUpdateReturned (snapshot ''processing'' None),
              SetTimeoutCalled (interval_of None),
              GetIssued (status_url (js ''t1'')), GetReturned (snapshot ''processing'' None),
              OnUpdateCalled (snapshot ''processing'' None),
              OnUpdateReturned (snapshot ''processing'' None),
              SetTimeoutCalled (interval_of None),
              GetIssued (status_url (js ''t1'')), GetReturned (snapshot ''success'' None),
              OnUpdateCalled (snapshot ''success'' None), OnUpdateReturned (snapshot ''success'' None),
              ResolveCalled (snapshot ''success'' None)]"
    by (rule four_status_sequence)
      (simp_all add: four_statuses_replies snapshot_fields quiet_def)
  moreover have replies: "four_statuses (status_url (js ''t1'')) 0 = Inr (snapshot ''pending'' None) \<and>
   four_statuses (status_url (js ''t1'')) 1 = Inr (snapshot ''processing'' None) \<and>
   four_statuses (status_url (js ''t1'')) 2 = Inr (snapshot ''processing'' None) \<and>
   four_statuses (status_url (js ''t1'')) 3 = Inr (snapshot ''success'' None)"
    by (simp add: four_statuses_replies)
  ultimately show ?thesis by blast
qed

text \<open>
  As stated, for every observer, the claim fails. With these four replies and an observer
  that throws at its fourth invocation there are four requests and four observer
  invocations, and the promise is rejected, not fulfilled; and with an observer that
  writes \<open>success\<close> into the first snapshot and returns, the session ends after one
  request.
\<close>

theorem four_status_sequence_counterexample:
  "four_statuses (status_url (js ''t1'')) 0 = Inr (snapshot ''pending'' None) \<and>
   four_statuses (status_url (js ''t1'')) 1 = Inr (snapshot ''processing'' None) \<and>
   four_statuses (status_url (js ''t1'')) 2 = Inr (snapshot ''processing'' None) \<and>
   four_statuses (status_url (js ''t1'')) 3 = Inr (snapshot ''success'' None) \<and>
   map_option requests (pollTaskStatus four_statuses (throws_at 3 7) (js ''t1'') None) = Some 4 \<and>
   map_option updates (pollTaskStatus four_statuses (throws_at 3 7) (js ''t1'') None) = Some 4 \<and>
   map_option promise (pollTaskStatus four_statuses (throws_at 3 7) (js ''t1'') None) =
     Some (Some (Rejected (Thrown 7))) \<and>
   map_option requests
     (pollTaskStatus four_statuses (sets_status_at 0 ''success'') (js ''t1'') None) = Some 1 \<and>
   map_option promise
     (pollTaskStatus four_statuses (sets_status_at 0 ''success'') (js ''t1'') None) =
     Some (Some (Fulfilled (snapshot ''success'' None)))"
proof -
  have c: "\<forall>j<3. continues four_statuses (throws_at 3 7) (js ''t1'') j"
    using js_known_statuses
    by (simp add: all_less_3 continues_def four_statuses_replies snapshot_fields throws_at_def)
  have s: "\<not> continues four_statuses (throws_at 3 7) (js ''t1'') 3"
    by (simp add: continues_def four_statuses_replies snapshot_fields throws_at_def)
  have run: "pollTaskStatus four_statuses (throws_at 3 7) (js ''t1'') None =
      Some (final_session four_statuses (throws_at 3 7) (js ''t1'') (interval_of None) 3)"
    using c s by (rule session_run)
  have 1: "map_option requests (pollTaskStatus four_statuses (throws_at 3 7) (js ''t1'') None) = Some 4"
    by (simp add: run final_session_def)
  have 2: "map_option updates (pollTaskStatus four_statuses (throws_at 3 7) (js ''t1'') None) = Some 4"
    by (simp add: run final_session_def four_statuses_replies)
  have 3: "map_option promise (pollTaskStatus four_statuses (throws_at 3 7) (js ''t1'') None) =
      Some (Some (Rejected (Thrown 7)))"
    by (simp add: run final_session_def poll_outcome_def four_statuses_replies throws_at_def)
  have w: "(snapshot ''pending'' None)\<lparr>status := js ''success''\<rparr> = snapshot ''success'' None"
    by (simp add: snapshot_def)
  have "\<not> continues four_statuses (sets_status_at 0 ''success'') (js ''t1'') 0"
    by (simp add: continues_def four_statuses_replies sets_status_at_def)
  then have run2: "pollTaskStatus four_statuses (sets_status_at 0 ''success'') (js ''t1'') None =
      Some (final_session four_statuses (sets_status_at 0 ''success'') (js ''t1'') (interval_of None) 0)"
    by (rule run_once)
  have 4: "map_option requests
      (pollTaskStatus four_statuses (sets_status_at 0 ''success'') (js ''t1'') None) = Some 1"
    by (simp add: run2 final_session_def)
  have 5: "map_option promise
      (pollTaskStatus four_statuses (sets_status_at 0 ''success'') (js ''t1'') None) =
      Some (Some (Fulfilled (snapshot ''success'' None)))"
    by (simp add: run2 final_session_def poll_outcome_def four_statuses_replies
        sets_status_at_def w snapshot_fields)
  have replies: "four_statuses (status_url (js ''t1'')) 0 = Inr (snapshot ''pending'' None)"
    "four_statuses (status_url (js ''t1'')) 1 = Inr (snapshot ''processing'' None)"
    "four_statuses (status_url (js ''t1'')) 2 = Inr (snapshot ''processing'' None)"
    "four_statuses (status_url (js ''t1'')) 3 = Inr (snapshot ''success'' None)"
    by (simp_all add: four_statuses_replies)
  show ?thesis
    using replies 1 2 3 4 5 by (intro conjI)
qed


subsection \<open>Properties of the event loop\<close>

lemma counts_append:
  "responses (xs @ ys) = responses xs + responses ys"
  "updates_done (xs @ ys) = updates_done xs + updates_done ys"
  by (simp_all add: responses_def updates_done_def)

lemma counts_continues:
  assumes "continues api_get onUpdate taskId i"
  shows "responses (poll_events api_get onUpdate taskId iv i) = 1"
    and "updates_done (poll_events api_get onUpdate taskId iv i) = 1"
  using assms
  by (auto simp: continues_def poll_events_def responses_def updates_done_def
      split: sum.splits)

lemma counts_rounds:
  assumes "\<forall>j<m. continues api_get onUpdate taskId j"
  shows "responses (rounds api_get onUpdate taskId iv m) = m \<and>
         updates_done (rounds api_get onUpdate taskId iv m) = m"
  using assms
proof (induction m)
  case 0
  show ?case by (simp add: rounds_0 responses_def updates_done_def)
next
  case (Suc m)
  then show ?case by (simp add: rounds_Suc counts_append counts_continues)
qed

lemma poll_events_issue:
  assumes "poll_events api_get onUpdate taskId iv i = us @ GetIssued u # q"
  shows "us = [] \<and> u = status_url taskId"
proof (cases us)
  case Nil
  with assms show ?thesis by (simp add: poll_events_def)
next
  case (Cons e us')
  with assms have "GetIssued u \<in> set (tl (poll_events api_get onUpdate taskId iv i))"
    by simp
  then have False
    by (auto simp: poll_events_def split: sum.splits if_splits)
  then show ?thesis ..
qed

lemma issue_points:
  assumes "\<forall>j. Suc j < m \<longrightarrow> continues api_get onUpdate taskId j"
    and "rounds api_get onUpdate taskId iv m = p @ GetIssued u # q"
  shows "u = status_url taskId \<and> responses p = fetches p \<and> updates_done p = fetches p"
  using assms
proof (induction m arbitrary: p q)
  case 0
  then show ?case by (simp add: rounds_0)
next
  case (Suc m)
  let ?L = "rounds api_get onUpdate taskId iv m"
  let ?e = "poll_events api_get onUpdate taskId iv m"
  from Suc.prems(1) have all: "\<forall>j<m. continues api_get onUpdate taskId j"
    by simp
  from Suc.prems(2) have "?L @ ?e = p @ GetIssued u # q"
    by (simp add: rounds_Suc)
  then consider us where "?L = p @ us" and "us @ ?e = GetIssued u # q"
    | us where "?L @ us = p" and "?e = us @ GetIssued u # q"
    by (auto simp: append_eq_append_conv2)
  then show ?case
  proof cases
    case 1
    show ?thesis
    proof (cases us)
      case Nil
      with 1 have "?e = [] @ GetIssued u # q" and "p = ?L"
        by simp_all
      then show ?thesis
        using poll_events_issue [of api_get onUpdate taskId iv m "[]" u q]
          counts_rounds [OF all, of iv] fetches_rounds [of api_get onUpdate taskId iv m]
        by simp
    next
      case (Cons e us')
      with 1 have "?L = p @ GetIssued u # us'"
        by simp
      moreover have "\<forall>j. Suc j < m \<longrightarrow> continues api_get onUpdate taskId j"
        using all by simp
      ultimately show ?thesis
        using Suc.IH by blast
    qed
  next
    case 2
    then have "us = []" and "u = status_url taskId"
      using poll_events_issue [of api_get onUpdate taskId iv m us u q] by simp_all
    with 2 have "p = ?L" by simp
    then show ?thesis
      using \<open>u = status_url taskId\<close> counts_rounds [OF all, of iv]
        fetches_rounds [of api_get onUpdate taskId iv m]
      by simp
  qed
qed

lemma observed_poll_events:
  "observed (poll_events api_get onUpdate taskId iv i) =
     (case api_get (status_url taskId) i of Inl e \<Rightarrow> [] | Inr s \<Rightarrow> [s])"
  "received (poll_events api_get onUpdate taskId iv i) =
     (case api_get (status_url taskId) i of Inl e \<Rightarrow> [] | Inr s \<Rightarrow> [s])"
  by (simp_all add: poll_events_def split: sum.splits)

lemma observed_rounds:
  "observed (rounds api_get onUpdate taskId iv m) = received (rounds api_get onUpdate taskId iv m)"
  by (induction m)
    (simp_all add: rounds_0 rounds_Suc observed_append received_append observed_poll_events)

lemma observed_continuing:
  assumes "\<forall>j<m. continues api_get onUpdate taskId j"
  shows "length (observed (rounds api_get onUpdate taskId iv m)) = m"
  using assms
proof (induction m)
  case 0
  show ?case by (simp add: rounds_0)
next
  case (Suc m)
  then have "continues api_get onUpdate taskId m"
    by simp
  then obtain s where "api_get (status_url taskId) m = Inr s"
    by (rule continues_reply)
  with Suc show ?case
    by (simp add: rounds_Suc observed_append observed_poll_events)
qed

lemma observed_in_order:
  assumes "\<forall>j. Suc j < m \<longrightarrow> continues api_get onUpdate taskId j"
    and "i < length (observed (rounds api_get onUpdate taskId iv m))"
  shows "api_get (status_url taskId) i = Inr (observed (rounds api_get onUpdate taskId iv m) ! i)"
  using assms
proof (induction m)
  case 0
  then show ?case by (simp add: rounds_0)
next
  case (Suc m)
  let ?L = "rounds api_get onUpdate taskId iv m"
  from Suc.prems(1) have all: "\<forall>j<m. continues api_get onUpdate taskId j"
    by simp
  have len: "length (observed ?L) = m"
    using all by (rule observed_continuing)
  show ?case
  proof (cases "i < m")
    case True
    then have "api_get (status_url taskId) i = Inr (observed ?L ! i)"
      using Suc.IH all len by simp
    with True len show ?thesis
      by (simp add: rounds_Suc observed_append nth_append)
  next
    case False
    with Suc.prems(2) len obtain s where "api_get (status_url taskId) m = Inr s" and "i = m"
      by (cases "api_get (status_url taskId) m")
        (simp_all add: rounds_Suc observed_append observed_poll_events)
    with len show ?thesis
      by (simp add: rounds_Suc observed_append observed_poll_events nth_append)
  qed
qed

text \<open>
  Whatever the events and their order, the session is in one of two kinds of state: a run
  of \<open>poll\<close> has sent its request and waits for the answer, all runs before it having set
  the timer; or that run has ended.
\<close>

lemma event_waiting:
  "event api_get onUpdate taskId iv
     (poll_start taskId (idle_session api_get onUpdate taskId iv k)) a =
   (if a = ResponseArrives k
    then fst (poll api_get onUpdate taskId iv (idle_session api_get onUpdate taskId iv k))
    else poll_start taskId (idle_session api_get onUpdate taskId iv k))"
proof -
  have "requests (idle_session api_get onUpdate taskId iv k) = k"
    by (simp add: idle_session_def)
  then have "fst (poll api_get onUpdate taskId iv (idle_session api_get onUpdate taskId iv k)) =
      fst (poll_resume api_get onUpdate taskId iv k
             (poll_start taskId (idle_session api_get onUpdate taskId iv k)))"
    by (simp add: poll_def)
  then show ?thesis
    by (cases a) (auto simp: event_def poll_start_idle)
qed

lemma event_ended:
  "event api_get onUpdate taskId iv
     (fst (poll api_get onUpdate taskId iv (idle_session api_get onUpdate taskId iv k))) a =
   (if a = TimerExpires \<and> continues api_get onUpdate taskId k
    then poll_start taskId (idle_session api_get onUpdate taskId iv (Suc k))
    else fst (poll api_get onUpdate taskId iv (idle_session api_get onUpdate taskId iv k)))"
proof (cases "continues api_get onUpdate taskId k")
  case True
  then show ?thesis
    by (cases a) (simp_all add: event_def poll_continues timer_expires_idle)
next
  case False
  then show ?thesis
    by (cases a) (simp_all add: event_def poll_stops final_session_def)
qed

lemma event_loop_states:
  "\<exists>k. (\<forall>j<k. continues api_get onUpdate taskId j) \<and>
       (event_loop api_get onUpdate taskId pollInterval actions =
          poll_start taskId (idle_session api_get onUpdate taskId (interval_of pollInterval) k) \<or>
        event_loop api_get onUpdate taskId pollInterval actions =
          fst (poll api_get onUpdate taskId (interval_of pollInterval)
                 (idle_session api_get onUpdate taskId (interval_of pollInterval) k)))"
proof (induction actions rule: rev_induct)
  case Nil
  have "event_loop api_get onUpdate taskId pollInterval [] =
      poll_start taskId (idle_session api_get onUpdate taskId (interval_of pollInterval) 0)"
    by (simp add: event_loop_def
        new_session_idle [of api_get onUpdate taskId "interval_of pollInterval"])
  then show ?case
    by (intro exI [of _ 0]) simp
next
  case (snoc a actions)
  let ?iv = "interval_of pollInterval"
  let ?st = "event_loop api_get onUpdate taskId pollInterval actions"
  have step: "event_loop api_get onUpdate taskId pollInterval (actions @ [a]) =
      event api_get onUpdate taskId ?iv ?st a"
    by (simp add: event_loop_def)
  from snoc obtain k where before: "\<forall>j<k. continues api_get onUpdate taskId j"
    and st: "?st = poll_start taskId (idle_session api_get onUpdate taskId ?iv k) \<or>
        ?st = fst (poll api_get onUpdate taskId ?iv (idle_session api_get onUpdate taskId ?iv k))"
    by blast
  from st show ?case
  proof
    assume w: "?st = poll_start taskId (idle_session api_get onUpdate taskId ?iv k)"
    have "event api_get onUpdate taskId ?iv ?st a =
        poll_start taskId (idle_session api_get onUpdate taskId ?iv k) \<or>
      event api_get onUpdate taskId ?iv ?st a =
        fst (poll api_get onUpdate taskId ?iv (idle_session api_get onUpdate taskId ?iv k))"
      unfolding w by (simp add: event_waiting)
    with before step show ?thesis
      by (intro exI [of _ k]) simp
  next
    assume e: "?st = fst (poll api_get onUpdate taskId ?iv (idle_session api_get onUpdate taskId ?iv k))"
    show ?thesis
    proof (cases "a = TimerExpires \<and> continues api_get onUpdate taskId k")
      case True
      then have "event api_get onUpdate taskId ?iv ?st a =
          poll_start taskId (idle_session api_get onUpdate taskId ?iv (Suc k))"
        unfolding e event_ended by (rule if_P)
      moreover from True before have "\<forall>j<Suc k. continues api_get onUpdate taskId j"
        by (simp add: less_Suc_eq)
      ultimately show ?thesis
        using step by (intro exI [of _ "Suc k"]) simp
    next
      case False
      then have "event api_get onUpdate taskId ?iv ?st a =
          fst (poll api_get onUpdate taskId ?iv (idle_session api_get onUpdate taskId ?iv k))"
        unfolding e event_ended by (rule if_not_P)
      with before step show ?thesis
        by (intro exI [of _ k]) simp
    qed
  qed
qed

text \<open>
  The session ended by \<open>pollTaskStatus\<close> is a state of the event loop: the one reached
  when each answer arrives and each timer expires in turn.
\<close>

lemma event_loop_in_turn:
  assumes "\<forall>j<k. continues api_get onUpdate taskId j"
  shows "event_loop api_get onUpdate taskId pollInterval (in_turn k) =
     poll_start taskId (idle_session api_get onUpdate taskId (interval_of pollInterval) k)"
  using assms
proof (induction k)
  case 0
  show ?case
    by (simp add: event_loop_def
        new_session_idle [of api_get onUpdate taskId "interval_of pollInterval"])
next
  case (Suc k)
  then have ih: "event_loop api_get onUpdate taskId pollInterval (in_turn k) =
     poll_start taskId (idle_session api_get onUpdate taskId (interval_of pollInterval) k)"
    and ck: "continues api_get onUpdate taskId k"
    by simp_all
  have "event_loop api_get onUpdate taskId pollInterval (in_turn (Suc k)) =
      event api_get onUpdate taskId (interval_of pollInterval)
        (event api_get onUpdate taskId (interval_of pollInterval)
           (event_loop api_get onUpdate taskId pollInterval (in_turn k)) (ResponseArrives k))
        TimerExpires"
    by (simp add: event_loop_def)
  then show ?case
    using ck by (simp add: ih event_waiting event_ended)
qed

lemma final_session_event_loop:
  assumes "pollTaskStatus api_get onUpdate taskId pollInterval = Some st"
  shows "\<exists>actions. st = event_loop api_get onUpdate taskId pollInterval actions"
proof -
  have "\<exists>n. \<not> continues api_get onUpdate taskId n"
  proof (rule ccontr)
    assume "\<not> (\<exists>n. \<not> continues api_get onUpdate taskId n)"
    then have "\<forall>j. continues api_get onUpdate taskId j"
      by simp
    then have "pollTaskStatus api_get onUpdate taskId pollInterval = None"
      by (rule never_ends)
    with assms show False by simp
  qed
  then obtain m where "\<not> continues api_get onUpdate taskId m" ..
  then obtain n where before: "\<forall>j<n. continues api_get onUpdate taskId j"
    and stop: "\<not> continues api_get onUpdate taskId n"
    by (rule first_stop)
  let ?iv = "interval_of pollInterval"
  have "pollTaskStatus api_get onUpdate taskId pollInterval =
      Some (final_session api_get onUpdate taskId ?iv n)"
    using before stop by (rule session_run)
  with assms have st: "st = final_session api_get onUpdate taskId ?iv n"
    by simp
  have "event_loop api_get onUpdate taskId pollInterval (in_turn n @ [ResponseArrives n]) =
      event api_get onUpdate taskId ?iv
        (event_loop api_get onUpdate taskId pollInterval (in_turn n)) (ResponseArrives n)"
    by (simp add: event_loop_def)
  also have "\<dots> = fst (poll api_get onUpdate taskId ?iv (idle_session api_get onUpdate taskId ?iv n))"
    by (simp add: event_loop_in_turn [OF before] event_waiting)
  also have "\<dots> = st"
    by (simp add: poll_stops [OF stop] st)
  finally show ?thesis by blast
qed

text \<open>
  Claim C7. Whatever events the environment delivers and in whatever order (answers to
  requests in flight, expiries of timers set), at every moment of a session: at most one
  request is in flight, and none while a timer is set; wherever a request is sent, every
  request sent before it has been answered and the observer has returned from the
  invocation for each of those answers, and the request goes to the status address of the
  task; and the observer is called with the snapshots in the order they were received, the
  \<open>i\<close>-th invocation with the reply to the \<open>i\<close>-th request.
\<close>

theorem fetches_serialized:
  "length (in_flight (event_loop api_get onUpdate taskId pollInterval actions)) +
     timers (event_loop api_get onUpdate taskId pollInterval actions) \<le> 1 \<and>
   (\<forall>p u q. log (event_loop api_get onUpdate taskId pollInterval actions) = p @ GetIssued u # q \<longrightarrow>
      u = status_url taskId \<and> responses p = fetches p \<and> updates_done p = fetches p) \<and>
   observed (log (event_loop api_get onUpdate taskId pollInterval actions)) =
     received (log (event_loop api_get onUpdate taskId pollInterval actions)) \<and>
   (\<forall>i<length (observed (log (event_loop api_get onUpdate taskId pollInterval actions))).
      api_get (status_url taskId) i =
        Inr (observed (log (event_loop api_get onUpdate taskId pollInterval actions)) ! i))"
proof -
  let ?iv = "interval_of pollInterval"
  let ?st = "event_loop api_get onUpdate taskId pollInterval actions"
  obtain k where before: "\<forall>j<k. continues api_get onUpdate taskId j"
    and st: "?st = poll_start taskId (idle_session api_get onUpdate taskId ?iv k) \<or>
        ?st = fst (poll api_get onUpdate taskId ?iv (idle_session api_get onUpdate taskId ?iv k))"
    using event_loop_states [of api_get onUpdate taskId pollInterval actions] by blast
  have almost: "\<forall>j. Suc j < Suc k \<longrightarrow> continues api_get onUpdate taskId j"
    using before by simp
  have almost': "\<forall>j. Suc j < k \<longrightarrow> continues api_get onUpdate taskId j"
    using before by simp
  obtain tl where full: "rounds api_get onUpdate taskId ?iv (Suc k) =
      rounds api_get onUpdate taskId ?iv k @ GetIssued (status_url taskId) # tl"
    by (simp add: rounds_Suc poll_events_def)
  from st show ?thesis
  proof
    assume w: "?st = poll_start taskId (idle_session api_get onUpdate taskId ?iv k)"
    then have lg: "log ?st = rounds api_get onUpdate taskId ?iv k @ [GetIssued (status_url taskId)]"
      and fl: "in_flight ?st = [k]" and tm: "timers ?st = 0"
      by (simp_all add: poll_start_idle)
    have 1: "length (in_flight ?st) + timers ?st \<le> 1"
      by (simp add: fl tm)
    have 2: "u = status_url taskId \<and> responses p = fetches p \<and> updates_done p = fetches p"
      if "log ?st = p @ GetIssued u # q" for p u q
    proof -
      from that have "rounds api_get onUpdate taskId ?iv k @ [GetIssued (status_url taskId)] @ tl =
          p @ GetIssued u # (q @ tl)"
        by (simp add: lg)
      then have "rounds api_get onUpdate taskId ?iv (Suc k) = p @ GetIssued u # (q @ tl)"
        by (simp add: full)
      with almost show ?thesis
        by (rule issue_points)
    qed
    have 3: "observed (log ?st) = received (log ?st)"
      by (simp add: lg observed_append received_append observed_rounds)
    have ob: "observed (log ?st) = observed (rounds api_get onUpdate taskId ?iv k)"
      by (simp add: lg observed_append)
    have 4: "\<forall>i<length (observed (log ?st)).
        api_get (status_url taskId) i = Inr (observed (log ?st) ! i)"
      unfolding ob using observed_in_order [OF almost'] by blast
    from 1 2 3 4 show ?thesis by blast
  next
    assume e: "?st = fst (poll api_get onUpdate taskId ?iv (idle_session api_get onUpdate taskId ?iv k))"
    then have lg: "log ?st = rounds api_get onUpdate taskId ?iv (Suc k)"
      and fl: "in_flight ?st = []"
      and tm: "timers ?st = (if continues api_get onUpdate taskId k then Suc 0 else 0)"
      by (simp_all add: poll_idle)
    have 1: "length (in_flight ?st) + timers ?st \<le> 1"
      by (simp add: fl tm)
    have 2: "u = status_url taskId \<and> responses p = fetches p \<and> updates_done p = fetches p"
      if "log ?st = p @ GetIssued u # q" for p u q
      using almost that unfolding lg by (rule issue_points)
    have 3: "observed (log ?st) = received (log ?st)"
      unfolding lg by (rule observed_rounds)
    have 4: "\<forall>i<length (observed (log ?st)).
        api_get (status_url taskId) i = Inr (observed (log ?st) ! i)"
      unfolding lg using observed_in_order [OF almost] by blast
    from 1 2 3 4 show ?thesis by blast
  qed
qed


theorem fetches_serialized_witness:
  "log (event_loop four_statuses quiet (js ''t1'') None
          [ResponseArrives 0, TimerExpires, TimerExpires, ResponseArrives 5, ResponseArrives 1]) =
     [GetIssued (status_url (js ''t1'')), GetReturned (snapshot ''pending'' None),
      OnUpdateCalled (snapshot ''pending'' None), OnUpdateReturned (snapshot ''pending'' None),
      SetTimeoutCalled 2000] @
     GetIssued (status_url (js ''t1'')) #
     [GetReturned (snapshot ''processing'' None), OnUpdateCalled (snapshot ''processing'' None),
      OnUpdateReturned (snapshot ''processing'' None), SetTimeoutCalled 2000] \<and>
   responses [GetIssued (status_url (js ''t1'')), GetReturned (snapshot ''pending'' None),
      OnUpdateCalled (snapshot ''pending'' None), OnUpdateReturned (snapshot ''pending'' None),
      SetTimeoutCalled 2000 :: nat event] =
   fetches [GetIssued (status_url (js ''t1'')), GetReturned (snapshot ''pending'' None),
      OnUpdateCalled (snapshot ''pending'' None), OnUpdateReturned (snapshot ''pending'' None),
      SetTimeoutCalled 2000 :: nat event] \<and>
   updates_done [GetIssued (status_url (js ''t1'')), GetReturned (snapshot ''pending'' None),
      OnUpdateCalled (snapshot ''pending'' None), OnUpdateReturned (snapshot ''pending'' None),
      SetTimeoutCalled 2000 :: nat event] =
   fetches [GetIssued (status_url (js ''t1'')), GetReturned (snapshot ''pending'' None),
      OnUpdateCalled (snapshot ''pending'' None), OnUpdateReturned (snapshot ''pending'' None),
      SetTimeoutCalled 2000 :: nat event] \<and>
   in_flight (event_loop four_statuses quiet (js ''t1'') None
          [ResponseArrives 0, TimerExpires, TimerExpires, ResponseArrives 5, ResponseArrives 1]) = [] \<and>
   timers (event_loop four_statuses quiet (js ''t1'') None
          [ResponseArrives 0, TimerExpires, TimerExpires, ResponseArrives 5, ResponseArrives 1]) = 1 \<and>
   in_flight (event_loop four_statuses quiet (js ''t1'') None
          [ResponseArrives 0, TimerExpires, TimerExpires, ResponseArrives 5]) = [1] \<and>
   timers (event_loop four_statuses quiet (js ''t1'') None
          [ResponseArrives 0, TimerExpires, TimerExpires, ResponseArrives 5]) = 0 \<and>
   observed (log (event_loop four_statuses quiet (js ''t1'') None
          [ResponseArrives 0, TimerExpires, TimerExpires, ResponseArrives 5, ResponseArrives 1])) =
     [snapshot ''pending'' None, snapshot ''processing'' None] \<and>
   four_statuses (status_url (js ''t1'')) 1 =
     Inr (observed (log (event_loop four_statuses quiet (js ''t1'') None
          [ResponseArrives 0, TimerExpires, TimerExpires, ResponseArrives 5, ResponseArrives 1])) ! 1)"
proof -
  let ?u = "status_url (js ''t1'')"
  let ?acts = "[ResponseArrives 0, TimerExpires, TimerExpires, ResponseArrives 5, ResponseArrives 1]"
  let ?st = "event_loop four_statuses quiet (js ''t1'') None ?acts"
  let ?st' = "event_loop four_statuses quiet (js ''t1'') None
      [ResponseArrives 0, TimerExpires, TimerExpires, ResponseArrives 5]"
  let ?p = "[GetIssued ?u, GetReturned (snapshot ''pending'' None),
      OnUpdateCalled (snapshot ''pending'' None), OnUpdateReturned (snapshot ''pending'' None),
      SetTimeoutCalled 2000] :: nat event list"
  let ?q = "[GetReturned (snapshot ''processing'' None), OnUpdateCalled (snapshot ''processing'' None),
      OnUpdateReturned (snapshot ''processing'' None), SetTimeoutCalled 2000] :: nat event list"
  have c0: "continues four_statuses quiet (js ''t1'') 0"
    and c1: "continues four_statuses quiet (js ''t1'') (Suc 0)"
    using js_known_statuses
    by (simp_all add: continues_def four_statuses_replies snapshot_fields quiet_def)
  have e0: "poll_events four_statuses quiet (js ''t1'') 2000 0 = ?p"
    using js_known_statuses
    by (simp add: poll_events_def four_statuses_replies snapshot_fields quiet_def)
  have e1: "poll_events four_statuses quiet (js ''t1'') 2000 (Suc 0) = GetIssued ?u # ?q"
    using js_known_statuses
    by (simp add: poll_events_def four_statuses_replies snapshot_fields quiet_def)
  have st': "?st' = poll_start (js ''t1'') (idle_session four_statuses quiet (js ''t1'') 2000 (Suc 0))"
    using c0
    by (simp add: event_loop_def interval_of_def
        new_session_idle [of four_statuses quiet "js ''t1''" 2000] event_waiting event_ended)
  have "?st = event four_statuses quiet (js ''t1'') 2000 ?st' (ResponseArrives 1)"
    by (simp add: event_loop_def interval_of_def)
  then have st: "?st = fst (poll four_statuses quiet (js ''t1'') 2000
      (idle_session four_statuses quiet (js ''t1'') 2000 (Suc 0)))"
    by (simp add: st' event_waiting)
  have L: "log ?st = ?p @ GetIssued ?u # ?q"
    unfolding st by (simp add: poll_idle rounds_Suc rounds_0 e0 e1)
  have fl: "in_flight ?st = []" and tm: "timers ?st = 1"
    unfolding st using c1 by (simp_all add: poll_idle)
  have fl': "in_flight ?st' = [1]" and tm': "timers ?st' = 0"
    unfolding st' by (simp_all add: poll_start_idle)
  have ob: "observed (log ?st) = [snapshot ''pending'' None, snapshot ''processing'' None]"
    unfolding L by simp
  from fetches_serialized [of four_statuses quiet "js ''t1''" None ?acts]
  have all: "\<forall>p u q. log ?st = p @ GetIssued u # q \<longrightarrow>
            u = ?u \<and> responses p = fetches p \<and> updates_done p = fetches p"
    and each: "\<forall>i<length (observed (log ?st)).
            four_statuses ?u i = Inr (observed (log ?st) ! i)"
    by blast+
  from all L have "responses ?p = fetches ?p \<and> updates_done ?p = fetches ?p"
    by blast
  then have "responses ?p = fetches ?p" and "updates_done ?p = fetches ?p"
    by blast+
  moreover have "1 < length (observed (log ?st))"
    unfolding ob by simp
  with each have "four_statuses ?u 1 = Inr (observed (log ?st) ! 1)"
    by blast
  ultimately show ?thesis
    using L fl tm fl' tm' ob
    by (intro conjI)
qed


section \<open>Properties of link validation\<close>

lemma includes_js_sublist: "includes_js s t = sublist t s"
  by (induction s) (simp_all add: sublist_Cons_right)

lemma dropWhile_all: "(\<forall>x\<in>set (dropWhile P xs). P x) = (\<forall>x\<in>set xs. P x)"
proof
  assume a: "\<forall>x\<in>set (dropWhile P xs). P x"
  have "dropWhile P xs = []"
  proof (rule ccontr)
    assume ne: "dropWhile P xs \<noteq> []"
    then have "\<not> P (hd (dropWhile P xs))"
      by (rule hd_dropWhile)
    moreover from ne have "hd (dropWhile P xs) \<in> set (dropWhile P xs)"
      by simp
    ultimately show False using a by blast
  qed
  then show "\<forall>x\<in>set xs. P x"
    by (simp add: dropWhile_eq_Nil_conv)
next
  assume "\<forall>x\<in>set xs. P x"
  then show "\<forall>x\<in>set (dropWhile P xs). P x"
    using set_dropWhileD by fastforce
qed

lemma trim_empty: "(trim url = []) = (\<forall>c\<in>set url. isWhiteSpace c)"
  by (simp add: trim_def dropWhile_eq_Nil_conv dropWhile_all)

text \<open>
  Claim C8. The cases of the claim are read in the order it lists them, the first that
  applies deciding. For every input: when every code unit is white space (the empty
  string included) the result is the error \<open>Please enter a URL\<close>; otherwise, when the
  input does not parse, the error \<open>Please enter a valid URL\<close>; otherwise, with the
  hostname of the parsed address: \<open>youtube\<close> when it contains \<open>youtube.com\<close> or
  \<open>youtu.be\<close>, else \<open>vimeo\<close> when it contains \<open>vimeo.com\<close>, else \<open>google-drive\<close>
  when it contains \<open>drive.google.com\<close>, else the error that only the three platforms
  are supported. The witness runs the examples of the specification.
\<close>

theorem validateVideoLink_cases:
  "((\<forall>c\<in>set url. isWhiteSpace c) \<longrightarrow>
      validateVideoLink url_hostname url =
        \<lparr>isValid = False, platform = None, error = Some (js ''Please enter a URL'')\<rparr>) \<and>
   (\<not> (\<forall>c\<in>set url. isWhiteSpace c) \<and> url_hostname url = None \<longrightarrow>
      validateVideoLink url_hostname url =
        \<lparr>isValid = False, platform = None, error = Some (js ''Please enter a valid URL'')\<rparr>) \<and>
   (\<forall>hostname. \<not> (\<forall>c\<in>set url. isWhiteSpace c) \<and> url_hostname url = Some hostname \<longrightarrow>
      (sublist (js ''youtube.com'') hostname \<or> sublist (js ''youtu.be'') hostname \<longrightarrow>
         validateVideoLink url_hostname url =
           \<lparr>isValid = True, platform = Some Youtube, error = None\<rparr>) \<and>
      (\<not> sublist (js ''youtube.com'') hostname \<and> \<not> sublist (js ''youtu.be'') hostname \<and>
       sublist (js ''vimeo.com'') hostname \<longrightarrow>
         validateVideoLink url_hostname url =
           \<lparr>isValid = True, platform = Some Vimeo, error = None\<rparr>) \<and>
      (\<not> sublist (js ''youtube.com'') hostname \<and> \<not> sublist (js ''youtu.be'') hostname \<and>
       \<not> sublist (js ''vimeo.com'') hostname \<and> sublist (js ''drive.google.com'') hostname \<longrightarrow>
         validateVideoLink url_hostname url =
           \<lparr>isValid = True, platform = Some GoogleDrive, error = None\<rparr>) \<and>
      (\<not> sublist (js ''youtube.com'') hostname \<and> \<not> sublist (js ''youtu.be'') hostname \<and>
       \<not> sublist (js ''vimeo.com'') hostname \<and> \<not> sublist (js ''drive.google.com'') hostname \<longrightarrow>
         validateVideoLink url_hostname url =
           \<lparr>isValid = False, platform = None,
            error = Some (js ''Only YouTube, Vimeo, and Google Drive links are supported'')\<rparr>)) \<and>
   platform_name Youtube = js ''youtube'' \<and> platform_name Vimeo = js ''vimeo'' \<and>
   platform_name GoogleDrive = js ''google-drive''"
proof (cases "trim url = []")
  case True
  then show ?thesis
    by (simp add: validateVideoLink_def trim_empty [symmetric])
next
  case False
  show ?thesis
  proof (cases "url_hostname url")
    case None
    with False show ?thesis
      by (simp add: validateVideoLink_def trim_empty [symmetric])
  next
    case (Some hostname)
    with False show ?thesis
      by (simp add: validateVideoLink_def trim_empty [symmetric] includes_js_sublist)
  qed
qed

lemma sublist_includes_js: "sublist t s = includes_js s t"
  by (simp add: includes_js_sublist)

lemma example_hostnames:
  "https_hostname (js ''https://youtu.be/abc123'') = Some (js ''youtu.be'')"
  "https_hostname (js ''https://vimeo.com/12345'') = Some (js ''vimeo.com'')"
  "https_hostname (js ''https://drive.google.com/file/d/1'') = Some (js ''drive.google.com'')"
  "https_hostname (js ''https://example.com/video'') = Some (js ''example.com'')"
  "https_hostname (js ''not a url'') = None"
  by (simp_all add: https_hostname_def js_def)

lemma example_not_blank:
  "\<not> (\<forall>c\<in>set (js ''https://youtu.be/abc123''). isWhiteSpace c)"
  "\<not> (\<forall>c\<in>set (js ''https://vimeo.com/12345''). isWhiteSpace c)"
  "\<not> (\<forall>c\<in>set (js ''https://drive.google.com/file/d/1''). isWhiteSpace c)"
  "\<not> (\<forall>c\<in>set (js ''https://example.com/video''). isWhiteSpace c)"
  "\<not> (\<forall>c\<in>set (js ''not a url''). isWhiteSpace c)"
  by (simp_all add: js_def isWhiteSpace_def)

lemma example_blank:
  "\<forall>c\<in>set (js []). isWhiteSpace c"
  "\<forall>c\<in>set (js ''   ''). isWhiteSpace c"
  by (simp_all add: js_def isWhiteSpace_def)

lemma example_matches:
  "sublist (js ''youtu.be'') (js ''youtu.be'')"
  "\<not> sublist (js ''youtube.com'') (js ''vimeo.com'')"
  "\<not> sublist (js ''youtu.be'') (js ''vimeo.com'')"
  "sublist (js ''vimeo.com'') (js ''vimeo.com'')"
  "\<not> sublist (js ''youtube.com'') (js ''drive.google.com'')"
  "\<not> sublist (js ''youtu.be'') (js ''drive.google.com'')"
  "\<not> sublist (js ''vimeo.com'') (js ''drive.google.com'')"
  "sublist (js ''drive.google.com'') (js ''drive.google.com'')"
  "\<not> sublist (js ''youtube.com'') (js ''example.com'')"
  "\<not> sublist (js ''youtu.be'') (js ''example.com'')"
  "\<not> sublist (js ''vimeo.com'') (js ''example.com'')"
  "\<not> sublist (js ''drive.google.com'') (js ''example.com'')"
  by (simp_all add: sublist_includes_js js_def)

theorem validateVideoLink_cases_witness:
  "validateVideoLink https_hostname (js ''https://youtu.be/abc123'') =
     \<lparr>isValid = True, platform = Some Youtube, error = None\<rparr> \<and>
   validateVideoLink https_hostname (js ''https://vimeo.com/12345'') =
     \<lparr>isValid = True, platform = Some Vimeo, error = None\<rparr> \<and>
   validateVideoLink https_hostname (js ''https://drive.google.com/file/d/1'') =
     \<lparr>isValid = True, platform = Some GoogleDrive, error = None\<rparr> \<and>
   validateVideoLink https_hostname (js ''not a url'') =
     \<lparr>isValid = False, platform = None, error = Some (js ''Please enter a valid URL'')\<rparr> \<and>
   validateVideoLink https_hostname (js ''https://example.com/video'') =
     \<lparr>isValid = False, platform = None,
      error = Some (js ''Only YouTube, Vimeo, and Google Drive links are supported'')\<rparr> \<and>
   validateVideoLink https_hostname (js []) =
     \<lparr>isValid = False, platform = None, error = Some (js ''Please enter a URL'')\<rparr> \<and>
   validateVideoLink https_hostname (js ''   '') =
     \<lparr>isValid = False, platform = None, error = Some (js ''Please enter a URL'')\<rparr>"
proof -
  have "validateVideoLink https_hostname (js ''https://youtu.be/abc123'') =
     \<lparr>isValid = True, platform = Some Youtube, error = None\<rparr>"
    using validateVideoLink_cases [of "js ''https://youtu.be/abc123''" https_hostname]
      example_not_blank example_hostnames example_matches
    by blast
  moreover have "validateVideoLink https_hostname (js ''https://vimeo.com/12345'') =
     \<lparr>isValid = True, platform = Some Vimeo, error = None\<rparr>"
    using validateVideoLink_cases [of "js ''https://vimeo.com/12345''" https_hostname]
      example_not_blank example_hostnames example_matches
    by blast
  moreover have "validateVideoLink https_hostname (js ''https://drive.google.com/file/d/1'') =
     \<lparr>isValid = True, platform = Some GoogleDrive, error = None\<rparr>"
    using validateVideoLink_cases [of "js ''https://drive.google.com/file/d/1''" https_hostname]
      example_not_blank example_hostnames example_matches
    by blast
  moreover have "validateVideoLink https_hostname (js ''not a url'') =
     \<lparr>isValid = False, platform = None, error = Some (js ''Please enter a valid URL'')\<rparr>"
    using validateVideoLink_cases [of "js ''not a url''" https_hostname]
      example_not_blank example_hostnames
    by blast
  moreover have "validateVideoLink https_hostname (js ''https://example.com/video'') =
     \<lparr>isValid = False, platform = None,
      error = Some (js ''Only YouTube, Vimeo, and Google Drive links are supported'')\<rparr>"
    using validateVideoLink_cases [of "js ''https://example.com/video''" https_hostname]
      example_not_blank example_hostnames example_matches
    by blast
  moreover have "validateVideoLink https_hostname (js []) =
     \<lparr>isValid = False, platform = None, error = Some (js ''Please enter a URL'')\<rparr>"
    using validateVideoLink_cases [of "js []" https_hostname] example_blank
    by blast
  moreover have "validateVideoLink https_hostname (js ''   '') =
     \<lparr>isValid = False, platform = None, error = Some (js ''Please enter a URL'')\<rparr>"
    using validateVideoLink_cases [of "js ''   ''" https_hostname] example_blank
    by blast
  ultimately show ?thesis
    by (intro conjI)
qed


section \<open>Properties of the submission client\<close>





lemma form_get_all_append:
  "form_get_all (formData_append formData name v) key =
     form_get_all formData key @ (if name = key then [stored_value v] else [])"
  by (simp add: form_get_all_def formData_append_def)

lemma form_get_all_Nil: "form_get_all [] key = []"
  by (simp add: form_get_all_def)






end
